theory Spec2Isabelle
  imports Main
begin

section \<open>Time, durations and decimal printing\<close>

text \<open>
  Go's \<^verbatim>\<open>time.Duration\<close> is a count of nanoseconds; instants are nanoseconds on one
  clock. Both are integers here. The counters of this program stay far away from the
  64-bit range (a counter lives for one window), so they are unbounded integers.
\<close>

type_synonym time = int
type_synonym duration = int

definition Second :: duration where
  "Second = 1000000000"

definition Minute :: duration where
  "Minute = 60 * Second"

definition Hour :: duration where
  "Hour = 60 * Minute"

text \<open>
  \<^verbatim>\<open>int(d.Seconds())\<close>: the duration in seconds as a float, converted to an integer,
  which truncates towards zero. (The float is exact on whole seconds and on every
  duration below 194 days.)
\<close>

definition Seconds :: "duration \<Rightarrow> int" where
  "Seconds d = (if d < 0 then - ((- d) div Second) else d div Second)"

text \<open>\<^verbatim>\<open>strconv.FormatInt(n, 10)\<close> and \<^verbatim>\<open>strconv.Itoa\<close>: the decimal numeral of an integer.\<close>

definition digit_char :: "nat \<Rightarrow> char" where
  "digit_char d = char_of (48 + d)"

fun digits_fuel :: "nat \<Rightarrow> nat \<Rightarrow> string \<Rightarrow> string" where
  "digits_fuel 0 n acc = acc"
| "digits_fuel (Suc k) n acc =
     (if n < 10 then digit_char n # acc
      else digits_fuel k (n div 10) (digit_char (n mod 10) # acc))"

definition FormatInt :: "int \<Rightarrow> string" where
  "FormatInt n =
     (if n < 0 then CHR ''-'' # digits_fuel (Suc (nat (- n))) (nat (- n)) []
      else digits_fuel (Suc (nat n)) (nat n) [])"

section \<open>The counting store (internal/infrastructure/redis.go)\<close>

text \<open>
  The store maps a key to its counter and the instant at which the key expires
  (\<open>None\<close>: no expiry set). A key whose expiry has passed is gone: Redis deletes it
  lazily, on the next access.
\<close>

type_synonym redis_store = "string \<rightharpoonup> int \<times> time option"

datatype store_error = RedisUnavailable

definition expired :: "time \<Rightarrow> time option \<Rightarrow> bool" where
  "expired now e = (case e of None \<Rightarrow> False | Some t \<Rightarrow> t < now)"

definition live :: "time \<Rightarrow> redis_store \<Rightarrow> string \<Rightarrow> (int \<times> time option) option" where
  "live now st k =
     (case st k of
        None \<Rightarrow> None
      | Some (n, e) \<Rightarrow> if expired now e then None else Some (n, e))"

text \<open>\<^verbatim>\<open>INCR key\<close>: a missing key counts from 0; the expiry of the key is kept.\<close>

definition INCR :: "time \<Rightarrow> redis_store \<Rightarrow> string \<Rightarrow> int \<times> redis_store" where
  "INCR now st k =
     (case live now st k of
        None \<Rightarrow> (1, st(k \<mapsto> (1, None)))
      | Some (n, e) \<Rightarrow> (n + 1, st(k \<mapsto> (n + 1, e))))"

text \<open>\<^verbatim>\<open>EXPIRE key seconds\<close>: a timeout that is not positive deletes the key.\<close>

definition EXPIRE :: "time \<Rightarrow> redis_store \<Rightarrow> string \<Rightarrow> int \<Rightarrow> redis_store" where
  "EXPIRE now st k secs =
     (case live now st k of
        None \<Rightarrow> st
      | Some (n, e) \<Rightarrow>
          if secs \<le> 0 then st(k := None) else st(k \<mapsto> (n, Some (now + secs * Second))))"

text \<open>
  The script of \<^verbatim>\<open>IncrementWithExpiry\<close>, run by the store as one step:
  \<^verbatim>\<open>
  local current = redis.call("INCR", KEYS[1])
  if current == 1 then
      redis.call("EXPIRE", KEYS[1], ARGV[1])
  end
  return current
  \<close>
\<close>

definition incr_script :: "time \<Rightarrow> redis_store \<Rightarrow> string \<Rightarrow> int \<Rightarrow> int \<times> redis_store" where
  "incr_script now st k secs =
     (let (current, st1) = INCR now st k
      in if current = 1 then (current, EXPIRE now st1 k secs) else (current, st1))"

text \<open>
  \<^verbatim>\<open>IncrementWithExpiry(ctx, key, window)\<close>. \<open>ok\<close> says whether the round trip to the
  store succeeds; a failed round trip returns \<^verbatim>\<open>(0, err)\<close> and leaves the store alone.
\<close>

definition IncrementWithExpiry ::
  "bool \<Rightarrow> time \<Rightarrow> redis_store \<Rightarrow> string \<Rightarrow> duration \<Rightarrow> (store_error + int) \<times> redis_store" where
  "IncrementWithExpiry ok now st key window =
     (let seconds = (if Seconds window = 0 then 1 else Seconds window)
      in if \<not> ok then (Inl RedisUnavailable, st)
         else (let (result, st1) = incr_script now st key seconds in (Inr result, st1)))"

text \<open>
  \<^verbatim>\<open>TTL(ctx, key)\<close>. Redis answers -2 for a missing key, -1 for a key with no expiry and
  the remaining time rounded to whole seconds otherwise; the client returns the two
  negative answers as that many nanoseconds and the others as seconds. On an error the
  client returns the zero duration with the error.
\<close>

definition TTL :: "bool \<Rightarrow> time \<Rightarrow> redis_store \<Rightarrow> string \<Rightarrow> store_error + duration" where
  "TTL ok now st key =
     (if \<not> ok then Inl RedisUnavailable
      else case live now st key of
             None \<Rightarrow> Inr (- 2)
           | Some (n, None) \<Rightarrow> Inr (- 1)
           | Some (n, Some t) \<Rightarrow> Inr (((t - now + 500000000) div Second) * Second))"

section \<open>Requests, responses and the request context\<close>

text \<open>
  What the gateway reads of a request: the address \<^verbatim>\<open>c.RealIP()\<close>, the pattern of the
  matched route \<^verbatim>\<open>c.Path()\<close>, the URL path, and two headers (empty when absent).
\<close>

record request =
  RealIP :: string
  Path :: string
  URLPath :: string
  Authorization :: string
  RequestID :: string

datatype jval = JString string | JNumber int

datatype chunk = JsonObject "(string \<times> jval) list" | Text string

record response =
  Status :: nat
  Committed :: bool
  Header :: "string \<rightharpoonup> string"
  Body :: "chunk list"

text \<open>
  The outcome of \<^verbatim>\<open>jwt.Parse\<close> on the bearer token under the configured secret: an error,
  or a token with its \<^verbatim>\<open>Valid\<close> flag and its \<^verbatim>\<open>sub\<close> claim when that is a string.
\<close>

datatype jwt_result = JwtError | JwtToken bool "string option"

text \<open>What the backend does with a forwarded request: it answers, or the transport fails.\<close>

datatype backend_outcome = Responded nat string | TransportError string

text \<open>
  The collaborators' side of one request: the clock at each round trip, whether each
  round trip to the store succeeds, what the blacklist lookup finds, what the token
  parser and the backend answer.
\<close>

record env =
  t_incr :: time
  t_ttl :: time
  t_before :: time
  t_after :: time
  incr_ok :: bool
  ttl_ok :: bool
  blacklist_reply :: "store_error + bool"
  jwt_reply :: jwt_result
  backend_reply :: backend_outcome

text \<open>
  The request as the director of \<^verbatim>\<open>doProxy\<close> sends it to the backend: the host, the
  rewritten path, the header X-Request-ID (empty when the inbound request has none) and
  the header X-User-ID when the director sets it.
\<close>

record outbound =
  out_Host :: string
  out_Path :: string
  out_RequestID :: string
  out_UserID :: "string option"

text \<open>The calls a request makes to its collaborators, in the order they are made.\<close>

datatype event =
    BlacklistLookup string
  | TokenParse string
  | StoreIncr string
  | StoreTTL string
  | BreakerAttempt string
  | BreakerReport string bool
  | BackendCall string outbound

section \<open>The circuit breaker: its state\<close>

text \<open>
  Modelled from the spec: the breaker is the library github.com/sony/gobreaker, which is
  not among the files of this repository (only its settings and its use are, in
  internal/proxy). The state is the BreakerState of section 3 of the spec: the status,
  the counts of the current generation, and the instant at which the rolling interval
  (Closed) or the cool-down (Open) ends.
\<close>

datatype State = StateClosed | StateHalfOpen | StateOpen

record Counts =
  Requests :: nat
  TotalSuccesses :: nat
  TotalFailures :: nat
  ConsecutiveSuccesses :: nat
  ConsecutiveFailures :: nat

record CircuitBreaker =
  cb_state :: State
  generation :: nat
  counts :: Counts
  expiry :: "time option"

datatype go_error = ErrOpenState | ErrTooManyRequests | ProxyError string

section \<open>The context of one request\<close>

text \<open>
  The context carries the request, the response under construction, the value
  \<^verbatim>\<open>user_id\<close> set by the authentication middleware, and the state the request shares
  with all others: the store and the breakers. \<open>trace\<close> lists the calls made so far.
\<close>

record ctx =
  Request :: request
  Env :: env
  Response :: response
  user_id :: "string option"
  store :: redis_store
  breakers :: "string \<rightharpoonup> CircuitBreaker"
  trace :: "event list"

type_synonym HandlerFunc = "ctx \<Rightarrow> go_error option \<times> ctx"
type_synonym MiddlewareFunc = "HandlerFunc \<Rightarrow> HandlerFunc"

definition emit :: "event \<Rightarrow> ctx \<Rightarrow> ctx" where
  "emit e c = c\<lparr>trace := trace c @ [e]\<rparr>"

text \<open>\<^verbatim>\<open>c.Response().Header().Set(k, v)\<close> and \<^verbatim>\<open>Get\<close> (empty when absent).\<close>

definition set_header :: "string \<Rightarrow> string \<Rightarrow> ctx \<Rightarrow> ctx" where
  "set_header k v c = c\<lparr>Response := (Response c)\<lparr>Header := (Header (Response c))(k \<mapsto> v)\<rparr>\<rparr>"

definition get_header :: "ctx \<Rightarrow> string \<Rightarrow> string" where
  "get_header c k = (case Header (Response c) k of None \<Rightarrow> [] | Some v \<Rightarrow> v)"

text \<open>
  \<^verbatim>\<open>WriteHeader(code)\<close> commits the status once; \<^verbatim>\<open>Write\<close> commits with the status set
  so far (200 when none is) and appends to the body.
\<close>

definition WriteHeader :: "nat \<Rightarrow> ctx \<Rightarrow> ctx" where
  "WriteHeader code c =
     (if Committed (Response c) then c
      else c\<lparr>Response := (Response c)\<lparr>Status := code, Committed := True\<rparr>\<rparr>)"

definition Write :: "chunk \<Rightarrow> ctx \<Rightarrow> ctx" where
  "Write b c =
     (let c1 = (if Committed (Response c) then c
                else WriteHeader (if Status (Response c) = 0 then 200 else Status (Response c)) c)
      in c1\<lparr>Response := (Response c1)\<lparr>Body := Body (Response c1) @ [b]\<rparr>\<rparr>)"

text \<open>
  \<^verbatim>\<open>c.JSON(code, obj)\<close>: the content type is set unless one is, the status is \<open>code\<close>,
  the object is written; the write does not fail.
\<close>

definition JSON :: "nat \<Rightarrow> (string \<times> jval) list \<Rightarrow> ctx \<Rightarrow> go_error option \<times> ctx" where
  "JSON code obj c =
     (let c1 = (if get_header c ''Content-Type'' = [] then set_header ''Content-Type'' ''application/json'' c else c);
          c2 = c1\<lparr>Response := (Response c1)\<lparr>Status := code\<rparr>\<rparr>
      in (None, Write (JsonObject obj) c2))"

section \<open>The rate limiter (internal/middleware/ratelimit.go)\<close>

record RateLimitConfig =
  Limit :: int
  Window :: duration

record RateLimiter =
  authLimit :: RateLimitConfig
  transferLimit :: RateLimitConfig
  defaultLimit :: RateLimitConfig

definition NewRateLimiter :: RateLimiter where
  "NewRateLimiter =
     \<lparr>authLimit = \<lparr>Limit = 5, Window = 1 * Minute\<rparr>,
      transferLimit = \<lparr>Limit = 100, Window = 1 * Hour\<rparr>,
      defaultLimit = \<lparr>Limit = 1000, Window = 1 * Hour\<rparr>\<rparr>"

definition StatusTooManyRequests :: nat where
  "StatusTooManyRequests = 429"

definition checkLimit :: "ctx \<Rightarrow> HandlerFunc \<Rightarrow> string \<Rightarrow> RateLimitConfig \<Rightarrow> go_error option \<times> ctx" where
  "checkLimit c next key cfg =
     (let (r, st) = IncrementWithExpiry (incr_ok (Env c)) (t_incr (Env c)) (store c) key (Window cfg);
          c1 = emit (StoreIncr key) (c\<lparr>store := st\<rparr>)
      in case r of
           Inl err \<Rightarrow> next c1
         | Inr count \<Rightarrow>
             (let c2 = set_header ''X-RateLimit-Limit'' (FormatInt (Limit cfg)) c1;
                  c3 = set_header ''X-RateLimit-Remaining'' (FormatInt (max 0 (Limit cfg - count))) c2
              in if count > Limit cfg then
                   (let ttl = (case TTL (ttl_ok (Env c3)) (t_ttl (Env c3)) (store c3) key of
                                 Inl err \<Rightarrow> 0 | Inr d \<Rightarrow> d);
                        c4 = emit (StoreTTL key) c3;
                        retryAfter = (if Seconds ttl \<le> 0 then Seconds (Window cfg) else Seconds ttl);
                        c5 = set_header ''Retry-After'' (FormatInt retryAfter) c4
                    in JSON StatusTooManyRequests
                         [(''error'', JString ''Rate limit exceeded''), (''retry_after'', JNumber retryAfter)] c5)
                 else next c3))"

definition RateLimitByIP :: "RateLimitConfig \<Rightarrow> MiddlewareFunc" where
  "RateLimitByIP cfg next c =
     (let ip = RealIP (Request c);
          path = Path (Request c);
          key = ''ratelimit:ip:'' @ ip @ '':'' @ path
      in checkLimit c next key cfg)"

definition RateLimitByUser :: "RateLimitConfig \<Rightarrow> MiddlewareFunc" where
  "RateLimitByUser cfg next c =
     (let userID = (case user_id c of
                      None \<Rightarrow> RealIP (Request c)
                    | Some u \<Rightarrow> if u = [] then RealIP (Request c) else u);
          path = Path (Request c);
          key = ''ratelimit:user:'' @ userID @ '':'' @ path
      in checkLimit c next key cfg)"

definition AuthRateLimiter :: "RateLimiter \<Rightarrow> MiddlewareFunc" where
  "AuthRateLimiter r = RateLimitByIP (authLimit r)"

definition TransferRateLimiter :: "RateLimiter \<Rightarrow> MiddlewareFunc" where
  "TransferRateLimiter r = RateLimitByUser (transferLimit r)"

definition DefaultRateLimiter :: "RateLimiter \<Rightarrow> MiddlewareFunc" where
  "DefaultRateLimiter r = RateLimitByUser (defaultLimit r)"

section \<open>The breaker's state machine\<close>

text \<open>
  Modelled from the spec: the state machine behind \<^verbatim>\<open>gobreaker.NewCircuitBreaker\<close> and
  \<^verbatim>\<open>cb.Execute\<close> is the library github.com/sony/gobreaker, which is not among the
  files of this repository. Every definition of this section but
  \<^verbatim>\<open>createCircuitBreaker\<close> follows section 4.2 of the spec (Closed, Open and HalfOpen,
  the consecutive-failure count, the rolling interval that resets it, the cool-down, the
  probe limit), laid out as the library's \<^verbatim>\<open>Execute\<close> is: a check before the
  request, a report after it, and a generation number that ties a report to the state
  its attempt was admitted in. The settings are those of \<^verbatim>\<open>createCircuitBreaker\<close>,
  which is in the repository.
\<close>

record Settings =
  MaxRequests :: nat
  Interval :: duration
  Timeout :: duration
  ReadyToTrip :: "Counts \<Rightarrow> bool"

text \<open>\<^verbatim>\<open>createCircuitBreaker\<close> (internal/proxy): the settings of every breaker.\<close>

definition createCircuitBreaker :: Settings where
  "createCircuitBreaker =
     \<lparr>MaxRequests = 5,
      Interval = 10 * Second,
      Timeout = 30 * Second,
      ReadyToTrip = (\<lambda>counts. ConsecutiveFailures counts \<ge> 5)\<rparr>"

definition clear :: Counts where
  "clear = \<lparr>Requests = 0, TotalSuccesses = 0, TotalFailures = 0,
            ConsecutiveSuccesses = 0, ConsecutiveFailures = 0\<rparr>"

definition onRequest :: "Counts \<Rightarrow> Counts" where
  "onRequest n = n\<lparr>Requests := Requests n + 1\<rparr>"

definition counts_onSuccess :: "Counts \<Rightarrow> Counts" where
  "counts_onSuccess n =
     n\<lparr>TotalSuccesses := TotalSuccesses n + 1,
       ConsecutiveSuccesses := ConsecutiveSuccesses n + 1,
       ConsecutiveFailures := 0\<rparr>"

definition counts_onFailure :: "Counts \<Rightarrow> Counts" where
  "counts_onFailure n =
     n\<lparr>TotalFailures := TotalFailures n + 1,
       ConsecutiveFailures := ConsecutiveFailures n + 1,
       ConsecutiveSuccesses := 0\<rparr>"

text \<open>
  Modelled from the spec: a new generation clears the counts and sets the next expiry:
  the end of the rolling interval when Closed, the end of the cool-down when Open, none
  when HalfOpen.
\<close>

definition toNewGeneration :: "Settings \<Rightarrow> time \<Rightarrow> CircuitBreaker \<Rightarrow> CircuitBreaker" where
  "toNewGeneration st now cb =
     cb\<lparr>generation := generation cb + 1,
        counts := clear,
        expiry := (case cb_state cb of
                     StateClosed \<Rightarrow> if Interval st = 0 then None else Some (now + Interval st)
                   | StateOpen \<Rightarrow> Some (now + Timeout st)
                   | StateHalfOpen \<Rightarrow> None)\<rparr>"

definition NewCircuitBreaker :: "Settings \<Rightarrow> time \<Rightarrow> CircuitBreaker" where
  "NewCircuitBreaker st now =
     toNewGeneration st now \<lparr>cb_state = StateClosed, generation = 0, counts = clear, expiry = None\<rparr>"

definition setState :: "Settings \<Rightarrow> State \<Rightarrow> time \<Rightarrow> CircuitBreaker \<Rightarrow> CircuitBreaker" where
  "setState st s now cb =
     (if cb_state cb = s then cb else toNewGeneration st now (cb\<lparr>cb_state := s\<rparr>))"

text \<open>
  Modelled from the spec: the state as of \<open>now\<close>. A Closed breaker whose interval has
  passed starts a new generation, an Open breaker whose cool-down has passed becomes
  HalfOpen.
\<close>

definition currentState :: "Settings \<Rightarrow> time \<Rightarrow> CircuitBreaker \<Rightarrow> CircuitBreaker" where
  "currentState st now cb =
     (case cb_state cb of
        StateClosed \<Rightarrow>
          (case expiry cb of
             None \<Rightarrow> cb
           | Some e \<Rightarrow> if e < now then toNewGeneration st now cb else cb)
      | StateOpen \<Rightarrow>
          (case expiry cb of
             None \<Rightarrow> setState st StateHalfOpen now cb
           | Some e \<Rightarrow> if e < now then setState st StateHalfOpen now cb else cb)
      | StateHalfOpen \<Rightarrow> cb)"

text \<open>
  Modelled from the spec: the check before a request. An Open breaker rejects it, a
  HalfOpen breaker rejects it once the probe limit is reached, and an admitted request
  is counted.
\<close>

definition beforeRequest :: "Settings \<Rightarrow> time \<Rightarrow> CircuitBreaker \<Rightarrow> (go_error + nat) \<times> CircuitBreaker" where
  "beforeRequest st now cb =
     (let cb1 = currentState st now cb
      in if cb_state cb1 = StateOpen then (Inl ErrOpenState, cb1)
         else if cb_state cb1 = StateHalfOpen \<and> Requests (counts cb1) \<ge> MaxRequests st
           then (Inl ErrTooManyRequests, cb1)
         else (Inr (generation cb1), cb1\<lparr>counts := onRequest (counts cb1)\<rparr>))"

text \<open>
  Modelled from the spec: a success resets the consecutive failures and, in HalfOpen,
  closes the breaker at the probe limit; a failure opens the breaker when the trip
  condition holds in Closed, and at once in HalfOpen.
\<close>

definition onSuccess :: "Settings \<Rightarrow> State \<Rightarrow> time \<Rightarrow> CircuitBreaker \<Rightarrow> CircuitBreaker" where
  "onSuccess st s now cb =
     (case s of
        StateClosed \<Rightarrow> cb\<lparr>counts := counts_onSuccess (counts cb)\<rparr>
      | StateHalfOpen \<Rightarrow>
          (let cb1 = cb\<lparr>counts := counts_onSuccess (counts cb)\<rparr>
           in if ConsecutiveSuccesses (counts cb1) \<ge> MaxRequests st
              then setState st StateClosed now cb1 else cb1)
      | StateOpen \<Rightarrow> cb)"

definition onFailure :: "Settings \<Rightarrow> State \<Rightarrow> time \<Rightarrow> CircuitBreaker \<Rightarrow> CircuitBreaker" where
  "onFailure st s now cb =
     (case s of
        StateClosed \<Rightarrow>
          (let cb1 = cb\<lparr>counts := counts_onFailure (counts cb)\<rparr>
           in if ReadyToTrip st (counts cb1) then setState st StateOpen now cb1 else cb1)
      | StateHalfOpen \<Rightarrow> setState st StateOpen now cb
      | StateOpen \<Rightarrow> cb)"

text \<open>
  Modelled from the spec: the report of an attempt admitted in generation \<open>admitted\<close>;
  a report from an earlier generation is dropped.
\<close>

definition afterRequest :: "Settings \<Rightarrow> time \<Rightarrow> nat \<Rightarrow> bool \<Rightarrow> CircuitBreaker \<Rightarrow> CircuitBreaker" where
  "afterRequest st now admitted success cb =
     (let cb1 = currentState st now cb
      in if generation cb1 \<noteq> admitted then cb1
         else if success then onSuccess st (cb_state cb1) now cb1
         else onFailure st (cb_state cb1) now cb1)"

text \<open>
  Modelled from the spec: \<^verbatim>\<open>cb.Execute(req)\<close> on the breaker of service \<open>name\<close>.
  The request runs when the breaker admits it, and its outcome is reported as a success
  when it returned no error (no \<^verbatim>\<open>IsSuccessful\<close> is set in the settings). A request
  that panics is outside the model.
\<close>

definition Execute :: "Settings \<Rightarrow> string \<Rightarrow> HandlerFunc \<Rightarrow> HandlerFunc" where
  "Execute st name req c =
     (case breakers c name of
        None \<Rightarrow> req c
      | Some cb \<Rightarrow>
          (case beforeRequest st (t_before (Env c)) cb of
             (Inl err, cb1) \<Rightarrow> (Some err, emit (BreakerAttempt name) (c\<lparr>breakers := (breakers c)(name \<mapsto> cb1)\<rparr>))
           | (Inr gen, cb1) \<Rightarrow>
               (let c1 = emit (BreakerAttempt name) (c\<lparr>breakers := (breakers c)(name \<mapsto> cb1)\<rparr>);
                    (err, c2) = req c1;
                    c3 = emit (BreakerReport name (err = None)) c2
                in case breakers c3 name of
                     None \<Rightarrow> (err, c3)
                   | Some cb2 \<Rightarrow>
                       (err, c3\<lparr>breakers := (breakers c3)(name \<mapsto>
                                 afterRequest st (t_after (Env c3)) gen (err = None) cb2)\<rparr>))))"

section \<open>The forwarding stage (internal/proxy)\<close>

record URL =
  Host :: string
  UPath :: string

record Service =
  ServiceURL :: string
  CircuitBreaker :: bool

record Config =
  Services :: "string \<rightharpoonup> Service"

text \<open>
  The handler's configuration. \<open>url_Parse\<close> stands for the standard library's
  \<^verbatim>\<open>url.Parse\<close>: \<open>None\<close> is its error.
\<close>

record ProxyHandler =
  cfg :: Config
  url_Parse :: "string \<Rightarrow> URL option"

definition HasPrefix :: "string \<Rightarrow> string \<Rightarrow> bool" where
  "HasPrefix s p = (take (length p) s = p)"

definition HasSuffix :: "string \<Rightarrow> string \<Rightarrow> bool" where
  "HasSuffix s p = (length p \<le> length s \<and> drop (length s - length p) s = p)"

definition TrimPrefix :: "string \<Rightarrow> string \<Rightarrow> string" where
  "TrimPrefix s p = (if HasPrefix s p then drop (length p) s else s)"

fun Contains :: "string \<Rightarrow> string \<Rightarrow> bool" where
  "Contains [] sub = (sub = [])"
| "Contains (x # xs) sub = (HasPrefix (x # xs) sub \<or> Contains xs sub)"

text \<open>
  The director of \<^verbatim>\<open>NewSingleHostReverseProxy\<close> joins the target's path and the
  request's with one slash between them.
\<close>

definition singleJoiningSlash :: "string \<Rightarrow> string \<Rightarrow> string" where
  "singleJoiningSlash a b =
     (let aslash = HasSuffix a ''/''; bslash = HasPrefix b ''/''
      in if aslash \<and> bslash then a @ drop 1 b
         else if \<not> aslash \<and> \<not> bslash then a @ ''/'' @ b
         else a @ b)"

text \<open>
  The path rewrite of the director in \<^verbatim>\<open>doProxy\<close>:
  \<^verbatim>\<open>
  req.URL.Path = strings.TrimPrefix(req.URL.Path, "/api")
  if req.URL.Path == "" || !strings.HasPrefix(req.URL.Path, "/") {
      req.URL.Path = "/" + req.URL.Path
  }
  \<close>
\<close>

definition rewritePath :: "string \<Rightarrow> string" where
  "rewritePath p =
     (let p1 = TrimPrefix p ''/api''
      in if p1 = [] \<or> \<not> HasPrefix p1 ''/'' then ''/'' @ p1 else p1)"

text \<open>
  The director of \<^verbatim>\<open>doProxy\<close>: the original director joins the paths, the prefix is
  stripped, the host is the target's, the inbound X-Request-ID is kept and X-User-ID is
  set from a non-empty \<^verbatim>\<open>user_id\<close> of the context.
\<close>

definition Director :: "URL \<Rightarrow> ctx \<Rightarrow> outbound" where
  "Director targetURL c =
     \<lparr>out_Host = Host targetURL,
      out_Path = rewritePath (singleJoiningSlash (UPath targetURL) (URLPath (Request c))),
      out_RequestID = RequestID (Request c),
      out_UserID = (case user_id c of None \<Rightarrow> None | Some u \<Rightarrow> if u \<noteq> [] then Some u else None)\<rparr>"

definition StatusBadGateway :: nat where
  "StatusBadGateway = 502"

definition StatusServiceUnavailable :: nat where
  "StatusServiceUnavailable = 503"

definition StatusInternalServerError :: nat where
  "StatusInternalServerError = 500"

definition StatusUnauthorized :: nat where
  "StatusUnauthorized = 401"

definition ErrorHandler :: "ctx \<Rightarrow> ctx" where
  "ErrorHandler c =
     (if \<not> Contains (get_header c ''Content-Type'') ''application/json''
      then Write (Text ''{\"error\":\"Service Unavailable\"}'')
             (WriteHeader StatusBadGateway (set_header ''Content-Type'' ''application/json'' c))
      else c)"

text \<open>
  \<^verbatim>\<open>doProxy\<close>: the director rewrites the request, the transport makes the outbound
  call, and either the backend's response is relayed (its status and body; its headers
  are left out of the model) or the error handler runs and the error is returned.
\<close>

definition doProxy :: "URL \<Rightarrow> string \<Rightarrow> HandlerFunc" where
  "doProxy targetURL serviceName c =
     (let c1 = emit (BackendCall serviceName (Director targetURL c)) c
      in case backend_reply (Env c1) of
           Responded code body \<Rightarrow> (None, Write (Text body) (WriteHeader code c1))
         | TransportError err \<Rightarrow> (Some (ProxyError err), ErrorHandler c1))"

definition Handle :: "ProxyHandler \<Rightarrow> string \<Rightarrow> HandlerFunc" where
  "Handle h serviceName c =
     (case Services (cfg h) serviceName of
        None \<Rightarrow> JSON StatusServiceUnavailable [(''error'', JString ''Service not configured'')] c
      | Some svcConfig \<Rightarrow>
          (case url_Parse h (ServiceURL svcConfig) of
             None \<Rightarrow> JSON StatusInternalServerError [(''error'', JString ''Configuration error'')] c
           | Some targetURL \<Rightarrow>
               (case breakers c serviceName of
                  Some cb \<Rightarrow>
                    (let (err, c1) = Execute createCircuitBreaker serviceName (doProxy targetURL serviceName) c
                     in case err of
                          Some e \<Rightarrow>
                            if e = ErrOpenState \<or> e = ErrTooManyRequests
                            then JSON StatusServiceUnavailable
                                   [(''error'', JString ''Service temporarily unavailable''),
                                    (''service'', JString serviceName)] c1
                            else (None, c1)
                        | None \<Rightarrow> (None, c1))
                | None \<Rightarrow> doProxy targetURL serviceName c)))"

text \<open>
  \<^verbatim>\<open>NewProxyHandler\<close> creates, at startup, one breaker for every configured service
  whose \<^verbatim>\<open>circuit_breaker\<close> flag is set.
\<close>

definition NewProxyHandler_breakers :: "Config \<Rightarrow> time \<Rightarrow> (string \<rightharpoonup> CircuitBreaker)" where
  "NewProxyHandler_breakers cf now =
     (\<lambda>name. case Services cf name of
                None \<Rightarrow> None
              | Some svc \<Rightarrow>
                  if CircuitBreaker svc then Some (NewCircuitBreaker createCircuitBreaker now) else None)"

section \<open>The authentication middleware (internal/middleware/auth.go)\<close>

text \<open>The client of the store; a server without one holds \<open>None\<close> (Go's nil pointer).\<close>

datatype RedisClient = RedisClient

record AuthMiddleware =
  auth_redisClient :: "RedisClient option"

definition NewAuthMiddleware :: "RedisClient option \<Rightarrow> AuthMiddleware" where
  "NewAuthMiddleware redisClient = \<lparr>auth_redisClient = redisClient\<rparr>"

text \<open>\<^verbatim>\<open>strings.Split(s, " ")\<close>: the pieces of \<open>s\<close> between its spaces.\<close>

fun Split :: "string \<Rightarrow> string list" where
  "Split [] = [[]]"
| "Split (x # xs) =
     (if x = CHR '' '' then [] # Split xs
      else (case Split xs of [] \<Rightarrow> [[x]] | p # ps \<Rightarrow> (x # p) # ps))"

definition ValidateToken :: "AuthMiddleware \<Rightarrow> MiddlewareFunc" where
  "ValidateToken m next c =
     (let authHeader = Authorization (Request c)
      in if authHeader = [] then
           JSON StatusUnauthorized [(''error'', JString ''Missing authorization header'')] c
         else
           (let parts = Split authHeader
            in if length parts \<noteq> 2 \<or> parts ! 0 \<noteq> ''Bearer'' then
                 JSON StatusUnauthorized [(''error'', JString ''Invalid authorization format'')] c
               else
                 (let tokenString = parts ! 1;
                      (isBlacklisted, c1) =
                        (case auth_redisClient m of
                           None \<Rightarrow> (False, c)
                         | Some r \<Rightarrow>
                             (case blacklist_reply (Env c) of
                                Inl err \<Rightarrow> (False, emit (BlacklistLookup tokenString) c)
                              | Inr b \<Rightarrow> (b, emit (BlacklistLookup tokenString) c)))
                  in if isBlacklisted then
                       JSON StatusUnauthorized [(''error'', JString ''Token has been revoked'')] c1
                     else
                       (let c2 = emit (TokenParse tokenString) c1
                        in case jwt_reply (Env c2) of
                             JwtError \<Rightarrow>
                               JSON StatusUnauthorized [(''error'', JString ''Invalid token'')] c2
                           | JwtToken valid sub \<Rightarrow>
                               if \<not> valid then
                                 JSON StatusUnauthorized [(''error'', JString ''Token is invalid'')] c2
                               else
                                 (case sub of
                                    None \<Rightarrow> next c2
                                  | Some u \<Rightarrow> next (c2\<lparr>user_id := Some u\<rparr>))))))"

section \<open>The routes (internal/server/server.go) and the startup (main)\<close>

text \<open>
  Echo's route groups: a group has a path prefix and a list of middleware. A subgroup
  copies the middleware its parent has at that moment; a route registered on a group
  wraps its handler in the group's middleware, the first one outermost.
\<close>

record Group =
  prefix :: string
  middleware :: "MiddlewareFunc list"

record Route =
  pattern :: string
  handler :: HandlerFunc

definition applyMiddleware :: "HandlerFunc \<Rightarrow> MiddlewareFunc list \<Rightarrow> HandlerFunc" where
  "applyMiddleware h ms = foldr (\<lambda>m k. m k) ms h"

definition echo_Group :: "string \<Rightarrow> Group" where
  "echo_Group p = \<lparr>prefix = p, middleware = []\<rparr>"

definition SubGroup :: "Group \<Rightarrow> string \<Rightarrow> Group" where
  "SubGroup g p = \<lparr>prefix = prefix g @ p, middleware = middleware g\<rparr>"

definition Use :: "Group \<Rightarrow> MiddlewareFunc \<Rightarrow> Group" where
  "Use g m = g\<lparr>middleware := middleware g @ [m]\<rparr>"

definition Any :: "Group \<Rightarrow> string \<Rightarrow> HandlerFunc \<Rightarrow> Route" where
  "Any g path h = \<lparr>pattern = prefix g @ path, handler = applyMiddleware h (middleware g)\<rparr>"

record Server =
  server_cfg :: Config
  server_url_Parse :: "string \<Rightarrow> URL option"
  redisClient :: "RedisClient option"

definition New :: "Config \<Rightarrow> (string \<Rightarrow> URL option) \<Rightarrow> RedisClient option \<Rightarrow> Server" where
  "New cf parse rc = \<lparr>server_cfg = cf, server_url_Parse = parse, redisClient = rc\<rparr>"

definition health :: HandlerFunc where
  "health c = JSON 200 [(''status'', JString ''UP'')] c"

text \<open>
  \<^verbatim>\<open>setupRoutes\<close>, statement by statement; the result lists the routes in the order
  they are registered.
\<close>

definition setupRoutes :: "Server \<Rightarrow> Route list" where
  "setupRoutes s =
     (let healthRoute = \<lparr>pattern = ''/health'', handler = health\<rparr>;
          authMiddleware = NewAuthMiddleware (redisClient s);
          rateLimiter = (case redisClient s of None \<Rightarrow> None | Some r \<Rightarrow> Some NewRateLimiter);
          proxyHandler = \<lparr>cfg = server_cfg s, url_Parse = server_url_Parse s\<rparr>;
          apiGroup = echo_Group ''/api'';
          authRoutes0 = SubGroup apiGroup ''/auth'';
          authRoutes = (case rateLimiter of
                          None \<Rightarrow> authRoutes0
                        | Some rl \<Rightarrow> Use authRoutes0 (AuthRateLimiter rl));
          r1 = Any authRoutes ''/*'' (Handle proxyHandler ''auth-service'');
          protected0 = SubGroup apiGroup [];
          protected1 = Use protected0 (ValidateToken authMiddleware);
          transferRoutes0 = SubGroup protected1 ''/transfers'';
          transferRoutes = (case rateLimiter of
                              None \<Rightarrow> transferRoutes0
                            | Some rl \<Rightarrow> Use transferRoutes0 (TransferRateLimiter rl));
          r2 = Any transferRoutes ''/*'' (Handle proxyHandler ''transaction-service'');
          protected = (case rateLimiter of
                         None \<Rightarrow> protected1
                       | Some rl \<Rightarrow> Use protected1 (DefaultRateLimiter rl));
          r3 = Any protected ''/users/*'' (Handle proxyHandler ''user-service'');
          r4 = Any protected ''/reporting/*'' (Handle proxyHandler ''reporting-service'');
          r5 = Any protected ''/aml/*'' (Handle proxyHandler ''aml-service'')
      in [healthRoute, r1, r2, r3, r4, r5])"

text \<open>
  \<^verbatim>\<open>NewRedisClient\<close> pings the store and returns no client when the ping fails;
  \<^verbatim>\<open>main\<close> then runs the server with a nil client.
\<close>

definition NewRedisClient :: "bool \<Rightarrow> store_error + RedisClient" where
  "NewRedisClient ping_ok = (if ping_ok then Inr RedisClient else Inl RedisUnavailable)"

definition main :: "Config \<Rightarrow> (string \<Rightarrow> URL option) \<Rightarrow> bool \<Rightarrow> Server" where
  "main cf parse ping_ok =
     (let redisClient = (case NewRedisClient ping_ok of Inl err \<Rightarrow> None | Inr r \<Rightarrow> Some r)
      in New cf parse redisClient)"

section \<open>Serving requests\<close>

text \<open>A request starts with an empty response and an empty trace.\<close>

definition new_response :: response where
  "new_response = \<lparr>Status = 0, Committed = False, Header = Map.empty, Body = []\<rparr>"

definition NewContext :: "request \<Rightarrow> env \<Rightarrow> redis_store \<Rightarrow> (string \<rightharpoonup> CircuitBreaker) \<Rightarrow> ctx" where
  "NewContext r e st brs =
     \<lparr>Request = r, Env = e, Response = new_response, user_id = None, store = st, breakers = brs, trace = []\<rparr>"

text \<open>
  A sequence of requests served one after the other by the same handler: each request
  finds the store as the request before it left it.
\<close>

fun serve_all :: "HandlerFunc \<Rightarrow> redis_store \<Rightarrow> ctx list \<Rightarrow> (go_error option \<times> ctx) list" where
  "serve_all h st [] = []"
| "serve_all h st (c # cs) = (let r = h (c\<lparr>store := st\<rparr>) in r # serve_all h (store (snd r)) cs)"

text \<open>
  The value \<^verbatim>\<open>retryAfter\<close> of \<^verbatim>\<open>checkLimit\<close> as a function of the store's answer to
  \<^verbatim>\<open>TTL\<close>: the answer in whole seconds when that is positive, the window otherwise.
\<close>

definition retryAfter_of :: "store_error + duration \<Rightarrow> duration \<Rightarrow> int" where
  "retryAfter_of reply w =
     (case reply of
        Inl err \<Rightarrow> Seconds w
      | Inr d \<Rightarrow> if 0 < Seconds d then Seconds d else Seconds w)"

section \<open>Attempts on one breaker, one after the other\<close>

text \<open>
  One call of \<^verbatim>\<open>cb.Execute\<close> seen from the breaker: the check at \<open>t1\<close>, and for an
  admitted request the report at \<open>t2\<close> of whether it succeeded.
\<close>

definition attempt :: "Settings \<Rightarrow> time \<Rightarrow> time \<Rightarrow> bool \<Rightarrow> CircuitBreaker \<Rightarrow> go_error option \<times> CircuitBreaker" where
  "attempt st t1 t2 success cb =
     (case beforeRequest st t1 cb of
        (Inl err, cb1) \<Rightarrow> (Some err, cb1)
      | (Inr gen, cb1) \<Rightarrow> (None, afterRequest st t2 gen success cb1))"


definition fails :: "(time \<times> time) list \<Rightarrow> (time \<times> time \<times> bool) list" where
  "fails ts = map (\<lambda>(t1, t2). (t1, t2, False)) ts"

text \<open>Reports, at the given instants, of attempts admitted in generation \<open>gen\<close>.\<close>

fun reports :: "Settings \<Rightarrow> nat \<Rightarrow> (time \<times> bool) list \<Rightarrow> CircuitBreaker \<Rightarrow> CircuitBreaker" where
  "reports st gen [] cb = cb"
| "reports st gen ((t, success) # xs) cb = reports st gen xs (afterRequest st t gen success cb)"

definition successes :: "time list \<Rightarrow> (time \<times> bool) list" where
  "successes ts = map (\<lambda>t. (t, True)) ts"

text \<open>Checks at the given instants with no report in between: requests in flight together.\<close>

fun admit_all :: "Settings \<Rightarrow> time list \<Rightarrow> CircuitBreaker \<Rightarrow> (go_error + nat) list" where
  "admit_all st [] cb = []"
| "admit_all st (t # ts) cb = (let (r, cb1) = beforeRequest st t cb in r # admit_all st ts cb1)"

text \<open>Whether the backend answered (with whatever status).\<close>

definition responded :: "backend_outcome \<Rightarrow> bool" where
  "responded r = (case r of Responded code body \<Rightarrow> True | TransportError err \<Rightarrow> False)"

section \<open>The stages of the pipeline\<close>

text \<open>
  The stage a call to a collaborator belongs to: authentication (0), rate limiting (1),
  circuit breaking (2), forwarding (3), and the report of the outcome to the breaker,
  which follows the forwarded call (4).
\<close>

fun stage :: "event \<Rightarrow> nat" where
  "stage (BlacklistLookup tok) = 0"
| "stage (TokenParse tok) = 0"
| "stage (StoreIncr key) = 1"
| "stage (StoreTTL key) = 1"
| "stage (BreakerAttempt name) = 2"
| "stage (BackendCall name req) = 3"
| "stage (BreakerReport name success) = 4"

text \<open>
  The calls a handler adds to the trace are in the order of the stages and belong to
  stage \<open>k\<close> or to a later one.
\<close>

definition stages_from :: "nat \<Rightarrow> HandlerFunc \<Rightarrow> bool" where
  "stages_from k h =
     (\<forall>c. \<exists>evs. trace (snd (h c)) = trace c @ evs \<and> sorted (map stage evs) \<and> (\<forall>e \<in> set evs. k \<le> stage e))"

text \<open>
  A handler that leaves the store alone, sets no header but the content type and calls
  neither the counting store nor the blacklist.
\<close>

definition quota_free :: "HandlerFunc \<Rightarrow> bool" where
  "quota_free h =
     (\<forall>c. store (snd (h c)) = store c \<and>
          (\<forall>k. k \<noteq> ''Content-Type'' \<longrightarrow> Header (Response (snd (h c))) k = Header (Response c) k) \<and>
          (\<exists>evs. trace (snd (h c)) = trace c @ evs \<and>
             (\<forall>e \<in> set evs. stage e \<noteq> 1 \<and> (\<forall>tok. e \<noteq> BlacklistLookup tok))))"

section \<open>Sample data\<close>

definition sample_request :: request where
  "sample_request =
     \<lparr>RealIP = ''10.0.0.7'', Path = ''/api/users/*'', URLPath = ''/api/users/42'',
      Authorization = ''Bearer t0'', RequestID = ''r1''\<rparr>"

definition sample_env :: env where
  "sample_env =
     \<lparr>t_incr = 0, t_ttl = 0, t_before = 0, t_after = 0, incr_ok = True, ttl_ok = True,
      blacklist_reply = Inr False, jwt_reply = JwtToken True (Some ''alice''),
      backend_reply = Responded 200 ''ok''\<rparr>"

definition sample_ctx :: ctx where
  "sample_ctx = NewContext sample_request sample_env Map.empty Map.empty"

definition sample_open :: CircuitBreaker where
  "sample_open = \<lparr>cb_state = StateOpen, generation = 1, counts = clear, expiry = Some (30 * Second)\<rparr>"

definition sample_half_open :: CircuitBreaker where
  "sample_half_open = \<lparr>cb_state = StateHalfOpen, generation = 2, counts = onRequest clear, expiry = None\<rparr>"

definition sample_closed :: CircuitBreaker where
  "sample_closed =
     \<lparr>cb_state = StateClosed, generation = 1,
      counts = \<lparr>Requests = 4, TotalSuccesses = 0, TotalFailures = 4,
                ConsecutiveSuccesses = 0, ConsecutiveFailures = 4\<rparr>,
      expiry = Some (10 * Second)\<rparr>"

definition sample_cfg :: Config where
  "sample_cfg =
     \<lparr>Services = [''user-service'' \<mapsto> \<lparr>ServiceURL = ''http://users:8080'', CircuitBreaker = True\<rparr>,
                  ''auth-service'' \<mapsto> \<lparr>ServiceURL = ''http://auth:8080'', CircuitBreaker = False\<rparr>]\<rparr>"

definition sample_parse :: "string \<Rightarrow> URL option" where
  "sample_parse s =
     (if s = ''http://users:8080'' then Some \<lparr>Host = ''users:8080'', UPath = []\<rparr>
      else if s = ''http://auth:8080'' then Some \<lparr>Host = ''auth:8080'', UPath = []\<rparr>
      else None)"

definition sample_handler :: ProxyHandler where
  "sample_handler = \<lparr>cfg = sample_cfg, url_Parse = sample_parse\<rparr>"

definition sample_failing :: ctx where
  "sample_failing =
     sample_ctx\<lparr>Env := sample_env\<lparr>backend_reply := TransportError ''dial tcp 10.0.0.9:8080: connect: connection refused''\<rparr>,
                breakers := [''user-service'' \<mapsto> NewCircuitBreaker createCircuitBreaker 0]\<rparr>"

definition sample_erring :: ctx where
  "sample_erring =
     sample_ctx\<lparr>Env := sample_env\<lparr>backend_reply := Responded 500 ''internal error''\<rparr>,
                breakers := [''user-service'' \<mapsto> NewCircuitBreaker createCircuitBreaker 0]\<rparr>"

definition sample_served :: ctx where
  "sample_served = sample_ctx\<lparr>breakers := NewProxyHandler_breakers sample_cfg 0\<rparr>"

section \<open>Properties of the counting store and of the response writer\<close>

lemma Seconds_0 [simp]: "Seconds 0 = 0"
  by (simp add: Seconds_def)

lemma Seconds_nonneg: "0 \<le> w \<Longrightarrow> 0 \<le> Seconds w"
  by (simp add: Seconds_def Second_def)

lemma incr_script_fresh:
  "live now st k = None \<Longrightarrow> 0 < secs \<Longrightarrow>
   incr_script now st k secs = (1, st(k \<mapsto> (1, Some (now + secs * Second))))"
  by (simp add: incr_script_def INCR_def EXPIRE_def live_def expired_def)

lemma incr_script_live:
  "st k = Some (n, Some e) \<Longrightarrow> now \<le> e \<Longrightarrow> n \<noteq> 0 \<Longrightarrow>
   incr_script now st k secs = (n + 1, st(k \<mapsto> (n + 1, Some e)))"
  by (simp add: incr_script_def INCR_def live_def expired_def)

lemma Increment_fresh:
  "live now st k = None \<Longrightarrow> 0 \<le> w \<Longrightarrow>
   IncrementWithExpiry True now st k w =
     (Inr 1, st(k \<mapsto> (1, Some (now + (if Seconds w = 0 then 1 else Seconds w) * Second))))"
  using Seconds_nonneg [of w]
  by (simp add: IncrementWithExpiry_def incr_script_fresh)

lemma Increment_live:
  "st k = Some (n, Some e) \<Longrightarrow> now \<le> e \<Longrightarrow> n \<noteq> 0 \<Longrightarrow>
   IncrementWithExpiry True now st k w = (Inr (n + 1), st(k \<mapsto> (n + 1, Some e)))"
  by (simp add: IncrementWithExpiry_def incr_script_live)

lemma emit_fields [simp]:
  "store (emit e c) = store c" "Env (emit e c) = Env c" "Response (emit e c) = Response c"
  "breakers (emit e c) = breakers c" "user_id (emit e c) = user_id c" "Request (emit e c) = Request c"
  "trace (emit e c) = trace c @ [e]"
  by (simp_all add: emit_def)

lemma set_header_fields [simp]:
  "store (set_header k v c) = store c" "Env (set_header k v c) = Env c"
  "trace (set_header k v c) = trace c" "breakers (set_header k v c) = breakers c"
  "user_id (set_header k v c) = user_id c" "Request (set_header k v c) = Request c"
  "Committed (Response (set_header k v c)) = Committed (Response c)"
  "Status (Response (set_header k v c)) = Status (Response c)"
  "Body (Response (set_header k v c)) = Body (Response c)"
  "Header (Response (set_header k v c)) = (Header (Response c))(k \<mapsto> v)"
  by (simp_all add: set_header_def)

lemma JSON_fields [simp]:
  "store (snd (JSON code obj c)) = store c" "Env (snd (JSON code obj c)) = Env c"
  "trace (snd (JSON code obj c)) = trace c" "breakers (snd (JSON code obj c)) = breakers c"
  "fst (JSON code obj c) = None"
  by (simp_all add: JSON_def Write_def WriteHeader_def Let_def set_header_def)

lemma JSON_response:
  "\<not> Committed (Response c) \<Longrightarrow> code \<noteq> 0 \<Longrightarrow>
   Status (Response (snd (JSON code obj c))) = code \<and>
   Committed (Response (snd (JSON code obj c))) \<and>
   Body (Response (snd (JSON code obj c))) = Body (Response c) @ [JsonObject obj]"
  by (simp add: JSON_def Write_def WriteHeader_def Let_def set_header_def)

lemma JSON_header:
  "k \<noteq> ''Content-Type'' \<Longrightarrow> Header (Response (snd (JSON code obj c))) k = Header (Response c) k"
  by (simp add: JSON_def Write_def WriteHeader_def Let_def set_header_def)

lemma new_response_fields [simp]:
  "Status new_response = 0" "\<not> Committed new_response" "Header new_response = Map.empty"
  "Body new_response = []"
  by (simp_all add: new_response_def)

lemma NewContext_fields [simp]:
  "Request (NewContext r e st brs) = r" "Env (NewContext r e st brs) = e"
  "Response (NewContext r e st brs) = new_response" "user_id (NewContext r e st brs) = None"
  "store (NewContext r e st brs) = st" "breakers (NewContext r e st brs) = brs"
  "trace (NewContext r e st brs) = []"
  by (simp_all add: NewContext_def)

lemma sample_env_fields [simp]:
  "t_incr sample_env = 0" "t_ttl sample_env = 0" "t_before sample_env = 0" "t_after sample_env = 0"
  "incr_ok sample_env" "ttl_ok sample_env" "blacklist_reply sample_env = Inr False"
  "jwt_reply sample_env = JwtToken True (Some ''alice'')"
  "backend_reply sample_env = Responded 200 ''ok''"
  by (simp_all add: sample_env_def)

lemma sample_ctx_fields [simp]:
  "Request sample_ctx = sample_request" "Env sample_ctx = sample_env"
  "Response sample_ctx = new_response" "user_id sample_ctx = None"
  "store sample_ctx = Map.empty" "breakers sample_ctx = Map.empty" "trace sample_ctx = []"
  by (simp_all add: sample_ctx_def)

section \<open>The rate limiter\<close>

lemma checkLimit_allowed:
  "incr_ok (Env c) \<Longrightarrow>
   IncrementWithExpiry True (t_incr (Env c)) (store c) key (Window pol) = (Inr n, st) \<Longrightarrow>
   n \<le> Limit pol \<Longrightarrow>
   checkLimit c next key pol =
     next (set_header ''X-RateLimit-Remaining'' (FormatInt (Limit pol - n))
            (set_header ''X-RateLimit-Limit'' (FormatInt (Limit pol))
              (emit (StoreIncr key) (c\<lparr>store := st\<rparr>))))"
  by (simp add: checkLimit_def Let_def)

lemma checkLimit_denied:
  "incr_ok (Env c) \<Longrightarrow>
   IncrementWithExpiry True (t_incr (Env c)) (store c) key (Window pol) = (Inr n, st) \<Longrightarrow>
   Limit pol < n \<Longrightarrow>
   checkLimit c next key pol =
     (let ra = retryAfter_of (TTL (ttl_ok (Env c)) (t_ttl (Env c)) st key) (Window pol)
      in JSON StatusTooManyRequests
           [(''error'', JString ''Rate limit exceeded''), (''retry_after'', JNumber ra)]
           (set_header ''Retry-After'' (FormatInt ra)
             (emit (StoreTTL key)
               (set_header ''X-RateLimit-Remaining'' (FormatInt 0)
                 (set_header ''X-RateLimit-Limit'' (FormatInt (Limit pol))
                   (emit (StoreIncr key) (c\<lparr>store := st\<rparr>)))))))"
  by (auto simp add: checkLimit_def Let_def retryAfter_of_def split: sum.splits)

lemma serve_all_length [simp]: "length (serve_all h st cs) = length cs"
  by (induction cs arbitrary: st) (simp_all add: Let_def)

text \<open>
  Once the counter is in the store with expiry \<open>e\<close>, request number \<open>i\<close> of a run of
  requests that arrive by \<open>e\<close> finds the counter raised by \<open>i\<close>.
\<close>

lemma serve_all_counting:
  assumes pres: "\<And>c. store (snd (next c)) = store c"
    and held: "st k = Some (n, Some e)" "n \<noteq> 0" "0 \<le> n"
    and ok: "\<forall>c \<in> set cs. incr_ok (Env c) \<and> t_incr (Env c) \<le> e"
    and i: "i < length cs"
  shows "serve_all (\<lambda>c. checkLimit c next k pol) st cs ! i =
           checkLimit ((cs ! i)\<lparr>store := st(k \<mapsto> (n + int i, Some e))\<rparr>) next k pol"
  using held ok i
proof (induction cs arbitrary: st n i)
  case Nil
  then show ?case by simp
next
  case (Cons c cs)
  let ?c = "c\<lparr>store := st\<rparr>"
  have inc: "IncrementWithExpiry True (t_incr (Env ?c)) (store ?c) k (Window pol)
               = (Inr (n + 1), st(k \<mapsto> (n + 1, Some e)))"
    using Cons.prems by (simp add: Increment_live)
  have st': "store (snd (checkLimit ?c next k pol)) = st(k \<mapsto> (n + 1, Some e))"
  proof (cases "n + 1 \<le> Limit pol")
    case True
    then show ?thesis using checkLimit_allowed [OF _ inc, of "next"] Cons.prems
      by (simp add: pres)
  next
    case False
    then show ?thesis using checkLimit_denied [OF _ inc, of "next"] Cons.prems
      by (simp add: Let_def)
  qed
  show ?case
  proof (cases i)
    case 0
    have "st(k \<mapsto> (n + int i, Some e)) = st" using 0 Cons.prems by (simp add: fun_upd_idem)
    then show ?thesis using 0 by (simp add: Let_def)
  next
    case (Suc j)
    have eq: "n + 1 + int j = n + int i" using Suc by simp
    have "serve_all (\<lambda>c. checkLimit c next k pol) (st(k \<mapsto> (n + 1, Some e))) cs ! j =
            checkLimit ((cs ! j)\<lparr>store := (st(k \<mapsto> (n + 1, Some e)))(k \<mapsto> (n + 1 + int j, Some e))\<rparr>) next k pol"
      using Cons.prems Suc by (intro Cons.IH) auto
    then have "serve_all (\<lambda>c. checkLimit c next k pol) (st(k \<mapsto> (n + 1, Some e))) cs ! j =
            checkLimit ((cs ! j)\<lparr>store := st(k \<mapsto> (n + int i, Some e))\<rparr>) next k pol"
      unfolding eq by simp
    moreover have "serve_all (\<lambda>c. checkLimit c next k pol) st (c # cs) ! i =
       serve_all (\<lambda>c. checkLimit c next k pol) (st(k \<mapsto> (n + 1, Some e))) cs ! j"
      using Suc st' by (simp add: Let_def)
    moreover have "(c # cs) ! i = cs ! j" using Suc by simp
    ultimately show ?thesis by (simp only:)
  qed
qed

lemma checkLimit_first:
  assumes pres: "\<And>c. store (snd (next c)) = store c"
    and fresh: "live (t_incr (Env c)) st k = None" and win: "0 \<le> Window pol" and ok: "incr_ok (Env c)"
  shows "store (snd (checkLimit (c\<lparr>store := st\<rparr>) next k pol)) =
           st(k \<mapsto> (1, Some (t_incr (Env c) + (if Seconds (Window pol) = 0 then 1 else Seconds (Window pol)) * Second)))"
proof -
  let ?c = "c\<lparr>store := st\<rparr>"
  let ?st = "st(k \<mapsto> (1, Some (t_incr (Env c) + (if Seconds (Window pol) = 0 then 1 else Seconds (Window pol)) * Second)))"
  have inc: "IncrementWithExpiry True (t_incr (Env ?c)) (store ?c) k (Window pol) = (Inr 1, ?st)"
    using fresh win by (simp add: Increment_fresh)
  show ?thesis
  proof (cases "1 \<le> Limit pol")
    case True
    then show ?thesis using checkLimit_allowed [OF _ inc, of "next"] ok by (simp add: pres)
  next
    case False
    then show ?thesis using checkLimit_denied [OF _ inc, of "next"] ok by (simp add: Let_def)
  qed
qed

lemma serve_all_nth:
  assumes pres: "\<And>c. store (snd (next c)) = store c"
    and win: "0 \<le> Window pol"
    and fresh: "live (t_incr (Env (hd cs))) st0 k = None"
    and ok: "\<forall>c \<in> set cs. incr_ok (Env c) \<and>
               t_incr (Env c) \<le> t_incr (Env (hd cs)) + (if Seconds (Window pol) = 0 then 1 else Seconds (Window pol)) * Second"
    and i: "i < length cs"
  shows "\<exists>st. st = (if i = 0 then st0 else st0(k \<mapsto> (int i, Some (t_incr (Env (hd cs)) + (if Seconds (Window pol) = 0 then 1 else Seconds (Window pol)) * Second))))
           \<and> serve_all (\<lambda>c. checkLimit c next k pol) st0 cs ! i = checkLimit ((cs ! i)\<lparr>store := st\<rparr>) next k pol
           \<and> IncrementWithExpiry True (t_incr (Env (cs ! i))) st k (Window pol) =
               (Inr (int i + 1), st0(k \<mapsto> (int i + 1, Some (t_incr (Env (hd cs)) + (if Seconds (Window pol) = 0 then 1 else Seconds (Window pol)) * Second))))"
proof (cases cs)
  case Nil
  then show ?thesis using i by simp
next
  case (Cons c rest)
  let ?e = "t_incr (Env c) + (if Seconds (Window pol) = 0 then 1 else Seconds (Window pol)) * Second"
  let ?st1 = "st0(k \<mapsto> (1, Some ?e))"
  show ?thesis
  proof (cases i)
    case 0
    have "IncrementWithExpiry True (t_incr (Env c)) st0 k (Window pol) = (Inr 1, ?st1)"
      using fresh win Cons by (simp add: Increment_fresh)
    then show ?thesis using 0 Cons by (intro exI [of _ st0]) (simp add: Let_def)
  next
    case (Suc j)
    have j: "j < length rest" using i Suc Cons by simp
    have st1: "store (snd (checkLimit (c\<lparr>store := st0\<rparr>) next k pol)) = ?st1"
      using checkLimit_first [OF pres, of c st0 k pol] fresh win ok Cons by simp
    have okr: "\<forall>c' \<in> set rest. incr_ok (Env c') \<and> t_incr (Env c') \<le> ?e"
      using ok Cons by simp
    have cnt: "serve_all (\<lambda>c. checkLimit c next k pol) ?st1 rest ! j =
                 checkLimit ((rest ! j)\<lparr>store := ?st1(k \<mapsto> (1 + int j, Some ?e))\<rparr>) next k pol"
      by (rule serve_all_counting [OF pres _ _ _ okr j]) simp_all
    have le: "t_incr (Env (rest ! j)) \<le> ?e" using okr j by simp
    have eq: "1 + int j = int i" using Suc by simp
    have "IncrementWithExpiry True (t_incr (Env (rest ! j))) (?st1(k \<mapsto> (int i, Some ?e))) k (Window pol)
            = (Inr (int i + 1), (?st1(k \<mapsto> (int i, Some ?e)))(k \<mapsto> (int i + 1, Some ?e)))"
      using le Suc by (intro Increment_live) simp_all
    then have inc: "IncrementWithExpiry True (t_incr (Env (rest ! j))) (?st1(k \<mapsto> (int i, Some ?e))) k (Window pol)
            = (Inr (int i + 1), st0(k \<mapsto> (int i + 1, Some ?e)))"
      by simp
    have "serve_all (\<lambda>c. checkLimit c next k pol) st0 cs ! i =
            serve_all (\<lambda>c. checkLimit c next k pol) ?st1 rest ! j"
      using Cons Suc st1 by (simp add: Let_def)
    with cnt have "serve_all (\<lambda>c. checkLimit c next k pol) st0 cs ! i =
        checkLimit ((cs ! i)\<lparr>store := ?st1(k \<mapsto> (int i, Some ?e))\<rparr>) next k pol"
      unfolding eq using Cons Suc by simp
    with inc show ?thesis using Cons Suc by (intro exI [of _ "?st1(k \<mapsto> (int i, Some ?e))"]) simp
  qed
qed

text \<open>
  C1. Requests with the same limit key are served one after the other under a policy
  with quota \<open>Limit pol\<close> and window \<open>Window pol\<close>. The store answers every
  increment, the first request finds no live counter for the key, and every request
  arrives before the counter which the first one creates expires (that is, within the
  window in whole seconds, one second at least, of the first request). Then request
  number \<open>i + 1\<close> is passed on to the wrapped handler \<open>next\<close> with the header
  X-RateLimit-Remaining set to quota minus \<open>i + 1\<close> when \<open>i + 1\<close> is at most the
  quota; otherwise it is answered with status 429 and the wrapped handler does not run:
  the result is the same whatever handler is wrapped.
\<close>

theorem C1_fixed_window_quota:
  assumes win: "0 \<le> Window pol"
    and fresh: "live (t_incr (Env (hd cs))) st0 key = None"
    and ok: "\<forall>c \<in> set cs. incr_ok (Env c) \<and> \<not> Committed (Response c) \<and>
               t_incr (Env c) \<le> t_incr (Env (hd cs)) + (if Seconds (Window pol) = 0 then 1 else Seconds (Window pol)) * Second"
    and pres: "\<forall>c. store (snd (next c)) = store c"
    and pres': "\<forall>c. store (snd (next' c)) = store c"
    and i: "i < length cs"
  shows "(int i + 1 \<le> Limit pol \<longrightarrow>
           (\<exists>st. serve_all (\<lambda>c. checkLimit c next key pol) st0 cs ! i =
              next (set_header ''X-RateLimit-Remaining'' (FormatInt (Limit pol - (int i + 1)))
                     (set_header ''X-RateLimit-Limit'' (FormatInt (Limit pol))
                       (emit (StoreIncr key) ((cs ! i)\<lparr>store := st\<rparr>)))))) \<and>
         (Limit pol < int i + 1 \<longrightarrow>
            fst (serve_all (\<lambda>c. checkLimit c next key pol) st0 cs ! i) = None \<and>
            Status (Response (snd (serve_all (\<lambda>c. checkLimit c next key pol) st0 cs ! i))) = 429 \<and>
            Committed (Response (snd (serve_all (\<lambda>c. checkLimit c next key pol) st0 cs ! i))) \<and>
            serve_all (\<lambda>c. checkLimit c next key pol) st0 cs ! i =
              serve_all (\<lambda>c. checkLimit c next' key pol) st0 cs ! i)"
proof -
  let ?e = "t_incr (Env (hd cs)) + (if Seconds (Window pol) = 0 then 1 else Seconds (Window pol)) * Second"
  let ?st = "if i = 0 then st0 else st0(key \<mapsto> (int i, Some ?e))"
  let ?c = "(cs ! i)\<lparr>store := ?st\<rparr>"
  have ok': "\<forall>c \<in> set cs. incr_ok (Env c) \<and> t_incr (Env c) \<le> ?e" using ok by simp
  have ci: "incr_ok (Env (cs ! i))" "\<not> Committed (Response (cs ! i))" using ok i by simp_all
  have n: "serve_all (\<lambda>c. checkLimit c next key pol) st0 cs ! i = checkLimit ?c next key pol"
    and inc: "IncrementWithExpiry True (t_incr (Env ?c)) (store ?c) key (Window pol) =
                (Inr (int i + 1), st0(key \<mapsto> (int i + 1, Some ?e)))"
    using serve_all_nth [of "next" pol cs st0 key i] pres win fresh ok' i by auto
  have n': "serve_all (\<lambda>c. checkLimit c next' key pol) st0 cs ! i = checkLimit ?c next' key pol"
    using serve_all_nth [of next' pol cs st0 key i] pres' win fresh ok' i by auto
  have allowed: "int i + 1 \<le> Limit pol \<Longrightarrow> ?thesis"
    using checkLimit_allowed [OF _ inc, of "next"] ci n by auto
  have denied: "Limit pol < int i + 1 \<Longrightarrow> ?thesis"
    using checkLimit_denied [OF _ inc, of "next"] checkLimit_denied [OF _ inc, of next'] ci n n'
    by (simp add: Let_def JSON_response StatusTooManyRequests_def)
  show ?thesis
  proof (cases "int i + 1 \<le> Limit pol")
    case True
    then show ?thesis by (rule allowed)
  next
    case False
    then show ?thesis by (intro denied) simp
  qed
qed

text \<open>
  Six requests at the same instant under the policy of the auth routes (5 per minute),
  wrapping the health handler: the first is passed on with 4 remaining, the sixth is
  answered with 429.
\<close>

theorem C1_fixed_window_quota_witness:
  "(\<exists>st. serve_all (\<lambda>c. checkLimit c health ''k'' (authLimit NewRateLimiter)) Map.empty (replicate 6 sample_ctx) ! 0 =
      health (set_header ''X-RateLimit-Remaining'' ''4''
               (set_header ''X-RateLimit-Limit'' ''5''
                 (emit (StoreIncr ''k'') (sample_ctx\<lparr>store := st\<rparr>))))) \<and>
   Status (Response (snd (serve_all (\<lambda>c. checkLimit c health ''k'' (authLimit NewRateLimiter)) Map.empty (replicate 6 sample_ctx) ! 5))) = 429"
proof -
  have f4: "FormatInt 4 = ''4''" and f5: "FormatInt 5 = ''5''" by code_simp+
  have pres: "\<forall>c. store (snd (health c)) = store c" by (simp add: health_def)
  have pol: "Limit (authLimit NewRateLimiter) = 5" "Window (authLimit NewRateLimiter) = 60 * Second"
    by (simp_all add: NewRateLimiter_def Minute_def)
  have s: "Seconds (60 * Second) = 60" by (simp add: Seconds_def Second_def)
  have h: "\<forall>c \<in> set (replicate 6 sample_ctx). incr_ok (Env c) \<and> \<not> Committed (Response c) \<and>
               t_incr (Env c) \<le> t_incr (Env (hd (replicate 6 sample_ctx))) +
                 (if Seconds (Window (authLimit NewRateLimiter)) = 0 then 1 else Seconds (Window (authLimit NewRateLimiter))) * Second"
    by (simp add: pol s) (simp add: Second_def)
  have fr: "live (t_incr (Env (hd (replicate 6 sample_ctx)))) Map.empty ''k'' = None"
    by (simp add: live_def)
  have w: "0 \<le> Window (authLimit NewRateLimiter)" by (simp add: pol Second_def)
  show ?thesis
    using C1_fixed_window_quota [OF w fr h pres pres, of 0]
      C1_fixed_window_quota [OF w fr h pres pres, of 5]
    by (simp add: pol f4 f5)
qed

text \<open>
  C2. When the store's increment returns an error, \<^verbatim>\<open>checkLimit\<close> hands the request to
  the wrapped handler: its result is the handler's, on the context as it was (the store
  and the response untouched, the call to the store noted in the trace). This holds for
  every key, every policy and every content of the store, so no 429 comes from the
  limiter however many requests were counted before.
\<close>

theorem C2_fail_open:
  "\<not> incr_ok (Env c) \<Longrightarrow> checkLimit c next key pol = next (emit (StoreIncr key) c)"
  by (simp add: checkLimit_def IncrementWithExpiry_def)

text \<open>The store is down while its counter for the key stands at 99 under a quota of 5.\<close>

theorem C2_fail_open_witness:
  "checkLimit (sample_ctx\<lparr>Env := sample_env\<lparr>incr_ok := False\<rparr>, store := [''k'' \<mapsto> (99, Some 5)]\<rparr>)
       health ''k'' (authLimit NewRateLimiter)
     = health (emit (StoreIncr ''k'') (sample_ctx\<lparr>Env := sample_env\<lparr>incr_ok := False\<rparr>, store := [''k'' \<mapsto> (99, Some 5)]\<rparr>))"
  using C2_fail_open [of "sample_ctx\<lparr>Env := sample_env\<lparr>incr_ok := False\<rparr>, store := [''k'' \<mapsto> (99, Some 5)]\<rparr>"
      health "''k''" "authLimit NewRateLimiter"]
  by simp

text \<open>
  C9. A request over its quota, on a response not yet written, is answered with status
  429, a JSON body with the fields \<open>error\<close> and \<open>retry_after\<close>, and the header
  Retry-After with the same value. That value is the store's answer to \<^verbatim>\<open>TTL\<close> in
  whole seconds when it is positive (for a live counter: the time left until its expiry,
  rounded by the store to seconds), and the window in whole seconds whenever the lookup
  fails or the store reports nothing positive (the key is missing or has expired).
\<close>

theorem C9_deny_response:
  assumes ok: "incr_ok (Env c)"
    and inc: "IncrementWithExpiry True (t_incr (Env c)) (store c) key (Window pol) = (Inr n, st)"
    and over: "Limit pol < n"
    and new: "\<not> Committed (Response c)"
  shows "\<exists>ra. fst (checkLimit c next key pol) = None \<and>
           Status (Response (snd (checkLimit c next key pol))) = 429 \<and>
           Committed (Response (snd (checkLimit c next key pol))) \<and>
           Body (Response (snd (checkLimit c next key pol))) =
             Body (Response c) @ [JsonObject [(''error'', JString ''Rate limit exceeded''), (''retry_after'', JNumber ra)]] \<and>
           Header (Response (snd (checkLimit c next key pol))) ''Retry-After'' = Some (FormatInt ra) \<and>
           ra = (case TTL (ttl_ok (Env c)) (t_ttl (Env c)) st key of
                   Inl err \<Rightarrow> Seconds (Window pol)
                 | Inr d \<Rightarrow> if 0 < Seconds d then Seconds d else Seconds (Window pol)) \<and>
           (\<not> ttl_ok (Env c) \<or> live (t_ttl (Env c)) st key = None \<longrightarrow> ra = Seconds (Window pol)) \<and>
           (\<forall>m e. ttl_ok (Env c) \<and> live (t_ttl (Env c)) st key = Some (m, Some e) \<and>
                  0 < (e - t_ttl (Env c) + 500000000) div Second \<longrightarrow>
                  ra = (e - t_ttl (Env c) + 500000000) div Second)"
proof -
  let ?reply = "TTL (ttl_ok (Env c)) (t_ttl (Env c)) st key"
  let ?ra = "retryAfter_of ?reply (Window pol)"
  have a: "\<not> ttl_ok (Env c) \<or> live (t_ttl (Env c)) st key = None \<Longrightarrow> ?ra = Seconds (Window pol)"
    by (auto simp add: retryAfter_of_def TTL_def Seconds_def Second_def)
  have b: "ttl_ok (Env c) \<Longrightarrow> live (t_ttl (Env c)) st key = Some (m, Some e) \<Longrightarrow>
           0 < (e - t_ttl (Env c) + 500000000) div Second \<Longrightarrow>
           ?ra = (e - t_ttl (Env c) + 500000000) div Second" for m e
    by (simp add: retryAfter_of_def TTL_def Seconds_def Second_def)
  have c: "?ra = (case ?reply of Inl err \<Rightarrow> Seconds (Window pol)
                 | Inr d \<Rightarrow> if 0 < Seconds d then Seconds d else Seconds (Window pol))"
    by (simp add: retryAfter_of_def)
  show ?thesis
    apply (rule exI [of _ ?ra])
    using checkLimit_denied [OF ok inc over, of "next"] new a b c
    by (simp add: Let_def JSON_response JSON_header StatusTooManyRequests_def)
qed

text \<open>
  The counter stands at 5 of 5 with 30 seconds to live: the sixth request is told to
  retry after 30 seconds, and after the 60 seconds of the window when the lookup fails.
\<close>

theorem C9_deny_response_witness:
  "Status (Response (snd (checkLimit (sample_ctx\<lparr>store := [''k'' \<mapsto> (5, Some (30 * Second))]\<rparr>)
       health ''k'' (authLimit NewRateLimiter)))) = 429 \<and>
   Body (Response (snd (checkLimit (sample_ctx\<lparr>store := [''k'' \<mapsto> (5, Some (30 * Second))]\<rparr>)
       health ''k'' (authLimit NewRateLimiter)))) =
     [JsonObject [(''error'', JString ''Rate limit exceeded''), (''retry_after'', JNumber 30)]] \<and>
   Header (Response (snd (checkLimit (sample_ctx\<lparr>store := [''k'' \<mapsto> (5, Some (30 * Second))]\<rparr>)
       health ''k'' (authLimit NewRateLimiter)))) ''Retry-After'' = Some ''30'' \<and>
   Status (Response (snd (checkLimit (sample_ctx\<lparr>Env := sample_env\<lparr>ttl_ok := False\<rparr>, store := [''k'' \<mapsto> (5, Some (30 * Second))]\<rparr>)
       health ''k'' (authLimit NewRateLimiter)))) = 429 \<and>
   Header (Response (snd (checkLimit (sample_ctx\<lparr>Env := sample_env\<lparr>ttl_ok := False\<rparr>, store := [''k'' \<mapsto> (5, Some (30 * Second))]\<rparr>)
       health ''k'' (authLimit NewRateLimiter)))) ''Retry-After'' = Some ''60''"
proof -
  let ?st = "[''k'' \<mapsto> (5::int, Some (30 * Second))]"
  let ?st' = "[''k'' \<mapsto> (6::int, Some (30 * Second))]"
  let ?c = "sample_ctx\<lparr>store := ?st\<rparr>"
  let ?d = "sample_ctx\<lparr>Env := sample_env\<lparr>ttl_ok := False\<rparr>, store := ?st\<rparr>"
  have f: "FormatInt 30 = ''30''" "FormatInt 60 = ''60''" by code_simp+
  have pol: "Limit (authLimit NewRateLimiter) = 5" "Window (authLimit NewRateLimiter) = 60 * Second"
    by (simp_all add: NewRateLimiter_def Minute_def)
  have s: "Seconds (60 * Second) = 60" "Seconds (30 * Second) = 30" by (simp_all add: Seconds_def Second_def)
  have inc: "IncrementWithExpiry True 0 ?st ''k'' (60 * Second) = (Inr 6, ?st')"
    using Increment_live [of ?st "''k''" 5 "30 * Second" 0 "60 * Second"] by (simp add: Second_def)
  have ttl: "TTL True 0 ?st' ''k'' = Inr (30 * Second)"
    by (simp add: TTL_def live_def expired_def Second_def)
  have lv: "live 0 ?st' ''k'' = Some (6, Some (30 * Second))"
    by (simp add: live_def expired_def Second_def)
  show ?thesis
    using C9_deny_response [of ?c "''k''" "authLimit NewRateLimiter" 6 ?st' health]
      C9_deny_response [of ?d "''k''" "authLimit NewRateLimiter" 6 ?st' health]
    by (simp add: pol inc ttl s f)
qed

section \<open>The breaker\<close>

lemma settings [simp]:
  "MaxRequests createCircuitBreaker = 5" "Interval createCircuitBreaker = 10 * Second"
  "Timeout createCircuitBreaker = 30 * Second"
  "ReadyToTrip createCircuitBreaker n = (5 \<le> ConsecutiveFailures n)"
  by (simp_all add: createCircuitBreaker_def)

lemma Second_neq0 [simp]: "Second \<noteq> 0" by (simp add: Second_def)

lemma currentState_closed:
  "cb_state cb = StateClosed \<Longrightarrow> expiry cb = Some e \<Longrightarrow> t \<le> e \<Longrightarrow> currentState st t cb = cb"
  by (simp add: currentState_def)

lemma currentState_halfopen:
  "cb_state cb = StateHalfOpen \<Longrightarrow> currentState st t cb = cb"
  by (simp add: currentState_def)

lemma currentState_open_wait:
  "cb_state cb = StateOpen \<Longrightarrow> expiry cb = Some e \<Longrightarrow> t \<le> e \<Longrightarrow> currentState st t cb = cb"
  by (simp add: currentState_def)

lemma currentState_open_elapsed:
  "cb_state cb = StateOpen \<Longrightarrow> expiry cb = Some e \<Longrightarrow> e < t \<Longrightarrow>
   currentState st t cb = cb\<lparr>cb_state := StateHalfOpen, generation := generation cb + 1, counts := clear, expiry := None\<rparr>"
  by (simp add: currentState_def setState_def toNewGeneration_def)

lemma attempt_closed_success:
  assumes "cb_state cb = StateClosed" "expiry cb = Some e" "t1 \<le> e" "t2 \<le> e"
  shows "attempt createCircuitBreaker t1 t2 True cb =
           (None, cb\<lparr>counts := counts_onSuccess (onRequest (counts cb))\<rparr>)"
  using assms
  by (simp add: attempt_def beforeRequest_def afterRequest_def currentState_closed Let_def onSuccess_def)

lemma attempt_closed_failure:
  assumes "cb_state cb = StateClosed" "expiry cb = Some e" "t1 \<le> e" "t2 \<le> e"
  shows "attempt createCircuitBreaker t1 t2 False cb =
           (None, if 5 \<le> ConsecutiveFailures (counts cb) + 1
                  then cb\<lparr>cb_state := StateOpen, generation := generation cb + 1, counts := clear,
                          expiry := Some (t2 + 30 * Second)\<rparr>
                  else cb\<lparr>counts := counts_onFailure (onRequest (counts cb))\<rparr>)"
  using assms
  by (simp add: attempt_def beforeRequest_def afterRequest_def currentState_closed Let_def onFailure_def
      setState_def toNewGeneration_def counts_onFailure_def onRequest_def)


lemma counts_simps [simp]:
  "ConsecutiveFailures (counts_onFailure n) = ConsecutiveFailures n + 1"
  "ConsecutiveFailures (counts_onSuccess n) = 0"
  "ConsecutiveSuccesses (counts_onSuccess n) = ConsecutiveSuccesses n + 1"
  "ConsecutiveFailures (onRequest n) = ConsecutiveFailures n"
  "ConsecutiveSuccesses (onRequest n) = ConsecutiveSuccesses n"
  "Requests (onRequest n) = Requests n + 1"
  "Requests (counts_onSuccess n) = Requests n"
  "Requests clear = 0" "ConsecutiveFailures clear = 0" "ConsecutiveSuccesses clear = 0"
  by (simp_all add: counts_onFailure_def counts_onSuccess_def onRequest_def clear_def)



lemma before_open_wait:
  "cb_state cb = StateOpen \<Longrightarrow> expiry cb = Some e \<Longrightarrow> t \<le> e \<Longrightarrow>
   beforeRequest createCircuitBreaker t cb = (Inl ErrOpenState, cb)"
  by (simp add: beforeRequest_def currentState_open_wait)

lemma before_open_elapsed:
  "cb_state cb = StateOpen \<Longrightarrow> expiry cb = Some e \<Longrightarrow> e < t \<Longrightarrow>
   beforeRequest createCircuitBreaker t cb =
     (Inr (generation cb + 1),
      cb\<lparr>cb_state := StateHalfOpen, generation := generation cb + 1, counts := onRequest clear, expiry := None\<rparr>)"
  by (simp add: beforeRequest_def currentState_open_elapsed Let_def)

lemma before_halfopen:
  "cb_state cb = StateHalfOpen \<Longrightarrow>
   beforeRequest createCircuitBreaker t cb =
     (if 5 \<le> Requests (counts cb) then (Inl ErrTooManyRequests, cb)
      else (Inr (generation cb), cb\<lparr>counts := onRequest (counts cb)\<rparr>))"
  by (simp add: beforeRequest_def currentState_halfopen Let_def)

lemma after_halfopen_failure:
  "cb_state cb = StateHalfOpen \<Longrightarrow>
   afterRequest createCircuitBreaker t (generation cb) False cb =
     cb\<lparr>cb_state := StateOpen, generation := generation cb + 1, counts := clear, expiry := Some (t + 30 * Second)\<rparr>"
  by (simp add: afterRequest_def currentState_halfopen Let_def onFailure_def setState_def toNewGeneration_def)

lemma after_halfopen_success:
  "cb_state cb = StateHalfOpen \<Longrightarrow>
   afterRequest createCircuitBreaker t (generation cb) True cb =
     (if 5 \<le> ConsecutiveSuccesses (counts cb) + 1
      then cb\<lparr>cb_state := StateClosed, generation := generation cb + 1, counts := clear, expiry := Some (t + 10 * Second)\<rparr>
      else cb\<lparr>counts := counts_onSuccess (counts cb)\<rparr>)"
  by (simp add: afterRequest_def currentState_halfopen Let_def onSuccess_def setState_def toNewGeneration_def)

lemma reports_append: "reports st g (xs @ ys) cb = reports st g ys (reports st g xs cb)"
  by (induction xs arbitrary: cb) auto

lemma successes_stay_halfopen:
  assumes "cb_state cb = StateHalfOpen" "ConsecutiveSuccesses (counts cb) + length ts < 5"
  shows "cb_state (reports createCircuitBreaker (generation cb) (successes ts) cb) = StateHalfOpen \<and>
         generation (reports createCircuitBreaker (generation cb) (successes ts) cb) = generation cb \<and>
         ConsecutiveSuccesses (counts (reports createCircuitBreaker (generation cb) (successes ts) cb)) =
           ConsecutiveSuccesses (counts cb) + length ts"
  using assms
proof (induction ts arbitrary: cb)
  case Nil
  then show ?case by (simp add: successes_def)
next
  case (Cons t ts)
  let ?cb = "cb\<lparr>counts := counts_onSuccess (counts cb)\<rparr>"
  have step: "afterRequest createCircuitBreaker t (generation cb) True cb = ?cb"
    using after_halfopen_success [of cb t] Cons.prems by simp
  have "cb_state (reports createCircuitBreaker (generation ?cb) (successes ts) ?cb) = StateHalfOpen \<and>
         generation (reports createCircuitBreaker (generation ?cb) (successes ts) ?cb) = generation ?cb \<and>
         ConsecutiveSuccesses (counts (reports createCircuitBreaker (generation ?cb) (successes ts) ?cb)) =
           ConsecutiveSuccesses (counts ?cb) + length ts"
    using Cons.prems by (intro Cons.IH) simp_all
  then show ?case using step by (simp add: successes_def)
qed

lemma successes_close:
  assumes "cb_state cb = StateHalfOpen" "ConsecutiveSuccesses (counts cb) + length ts = 5" "ts \<noteq> []"
  shows "cb_state (reports createCircuitBreaker (generation cb) (successes ts) cb) = StateClosed"
proof -
  have ts: "ts = butlast ts @ [last ts]" using assms(3) by simp
  let ?cb = "reports createCircuitBreaker (generation cb) (successes (butlast ts)) cb"
  have pre: "cb_state ?cb = StateHalfOpen \<and> generation ?cb = generation cb \<and>
      ConsecutiveSuccesses (counts ?cb) = ConsecutiveSuccesses (counts cb) + length (butlast ts)"
  proof (intro successes_stay_halfopen)
    show "ConsecutiveSuccesses (counts cb) + length (butlast ts) < 5"
      using assms(2) assms(3) by (cases ts) auto
  qed (use assms in simp_all)
  have cs: "ConsecutiveSuccesses (counts ?cb) = 4" using pre assms(2) assms(3) by (cases ts) auto
  have "reports createCircuitBreaker (generation cb) (successes ts) cb =
          afterRequest createCircuitBreaker (last ts) (generation cb) True ?cb"
    by (subst ts) (simp add: successes_def reports_append)
  then show ?thesis using after_halfopen_success [of ?cb "last ts"] pre cs by simp
qed


lemma take_fails: "take n (fails ts) = fails (take n ts)"
  by (simp add: fails_def take_map)





section \<open>The breaker in front of the backend\<close>

lemma Write_fields [simp]:
  "store (Write b c) = store c" "Env (Write b c) = Env c" "trace (Write b c) = trace c"
  "breakers (Write b c) = breakers c" "user_id (Write b c) = user_id c"
  "Header (Response (Write b c)) = Header (Response c)"
  by (simp_all add: Write_def WriteHeader_def Let_def)

lemma WriteHeader_fields [simp]:
  "store (WriteHeader n c) = store c" "Env (WriteHeader n c) = Env c" "trace (WriteHeader n c) = trace c"
  "breakers (WriteHeader n c) = breakers c" "user_id (WriteHeader n c) = user_id c"
  "Header (Response (WriteHeader n c)) = Header (Response c)"
  by (simp_all add: WriteHeader_def)

lemma ErrorHandler_fields [simp]:
  "store (ErrorHandler c) = store c" "Env (ErrorHandler c) = Env c" "trace (ErrorHandler c) = trace c"
  "breakers (ErrorHandler c) = breakers c"
  by (simp_all add: ErrorHandler_def)

lemma doProxy_fields [simp]:
  "store (snd (doProxy u name c)) = store c" "Env (snd (doProxy u name c)) = Env c"
  "breakers (snd (doProxy u name c)) = breakers c"
  "trace (snd (doProxy u name c)) = trace c @ [BackendCall name (Director u c)]"
  "fst (doProxy u name c) = (case backend_reply (Env c) of Responded code body \<Rightarrow> None | TransportError err \<Rightarrow> Some (ProxyError err))"
  by (simp_all add: doProxy_def Let_def Director_def split: backend_outcome.splits)

lemma beforeRequest_errors:
  "beforeRequest st t cb = (Inl err, cb1) \<Longrightarrow> err = ErrOpenState \<or> err = ErrTooManyRequests"
  by (auto simp add: beforeRequest_def Let_def split: if_splits)

lemma Handle_rejected:
  assumes "Services (cfg h) name = Some svc" "url_Parse h (ServiceURL svc) = Some u"
    and "breakers c name = Some cb"
    and "beforeRequest createCircuitBreaker (t_before (Env c)) cb = (Inl err, cb1)"
  shows "Handle h name c =
           JSON StatusServiceUnavailable
             [(''error'', JString ''Service temporarily unavailable''), (''service'', JString name)]
             (emit (BreakerAttempt name) (c\<lparr>breakers := (breakers c)(name \<mapsto> cb1)\<rparr>))"
  using assms beforeRequest_errors [OF assms(4)]
  by (auto simp add: Handle_def Execute_def)

lemma Handle_admitted:
  assumes "Services (cfg h) name = Some svc" "url_Parse h (ServiceURL svc) = Some u"
    and "breakers c name = Some cb"
    and "beforeRequest createCircuitBreaker (t_before (Env c)) cb = (Inr gen, cb1)"
  shows "Handle h name c =
           (let c1 = emit (BreakerAttempt name) (c\<lparr>breakers := (breakers c)(name \<mapsto> cb1)\<rparr>);
                c2 = snd (doProxy u name c1);
                c3 = emit (BreakerReport name (responded (backend_reply (Env c)))) c2
            in (None, c3\<lparr>breakers := (breakers c)(name \<mapsto>
                   afterRequest createCircuitBreaker (t_after (Env c)) gen (responded (backend_reply (Env c))) cb1)\<rparr>))"
  using assms
  by (auto simp add: Handle_def Execute_def Let_def responded_def split_beta
      split: backend_outcome.splits option.splits)

lemma Handle_direct:
  assumes "Services (cfg h) name = Some svc" "url_Parse h (ServiceURL svc) = Some u"
    and "breakers c name = None"
  shows "Handle h name c = doProxy u name c"
  using assms by (simp add: Handle_def)

lemma admit_all_halfopen:
  assumes "cb_state cb = StateHalfOpen" "i < length ts"
  shows "admit_all createCircuitBreaker ts cb ! i =
           (if Requests (counts cb) + i < 5 then Inr (generation cb) else Inl ErrTooManyRequests)"
  using assms
proof (induction ts arbitrary: cb i)
  case Nil
  then show ?case by simp
next
  case (Cons t ts)
  show ?case
  proof (cases i)
    case 0
    then show ?thesis using Cons.prems by (simp add: before_halfopen)
  next
    case (Suc j)
    show ?thesis
    proof (cases "5 \<le> Requests (counts cb)")
      case True
      then show ?thesis using Cons.prems Suc Cons.IH [of cb j] by (simp add: before_halfopen)
    next
      case False
      then show ?thesis using Cons.prems Suc Cons.IH [of "cb\<lparr>counts := onRequest (counts cb)\<rparr>" j]
        by (simp add: before_halfopen)
    qed
  qed
qed

lemma admit_all_after_cooldown:
  assumes "cb_state cb = StateOpen" "expiry cb = Some e" "\<forall>t \<in> set ts. e < t" "i < length ts"
  shows "admit_all createCircuitBreaker ts cb ! i =
           (if i < 5 then Inr (generation cb + 1) else Inl ErrTooManyRequests)"
proof (cases ts)
  case Nil
  then show ?thesis using assms by simp
next
  case (Cons t rest)
  let ?cb = "cb\<lparr>cb_state := StateHalfOpen, generation := generation cb + 1, counts := onRequest clear, expiry := None\<rparr>"
  have b: "beforeRequest createCircuitBreaker t cb = (Inr (generation cb + 1), ?cb)"
    using before_open_elapsed [of cb e t] assms Cons by simp
  show ?thesis
  proof (cases i)
    case 0
    then show ?thesis using b Cons by simp
  next
    case (Suc j)
    then have "admit_all createCircuitBreaker rest ?cb ! j =
        (if Requests (counts ?cb) + j < 5 then Inr (generation ?cb) else Inl ErrTooManyRequests)"
      using assms(4) Cons by (intro admit_all_halfopen) simp_all
    then show ?thesis using b Cons Suc by simp
  qed
qed

lemma sample_handler_simps [simp]:
  "Services (cfg sample_handler) ''user-service'' = Some \<lparr>ServiceURL = ''http://users:8080'', CircuitBreaker = True\<rparr>"
  "Services (cfg sample_handler) ''auth-service'' = Some \<lparr>ServiceURL = ''http://auth:8080'', CircuitBreaker = False\<rparr>"
  "url_Parse sample_handler ''http://users:8080'' = Some \<lparr>Host = ''users:8080'', UPath = []\<rparr>"
  "url_Parse sample_handler ''http://auth:8080'' = Some \<lparr>Host = ''auth:8080'', UPath = []\<rparr>"
  by (simp_all add: sample_handler_def sample_cfg_def sample_parse_def)

lemma sample_breaker_simps [simp]:
  "cb_state sample_open = StateOpen" "expiry sample_open = Some (30 * Second)" "generation sample_open = 1"
  "cb_state sample_half_open = StateHalfOpen" "generation sample_half_open = 2"
  "ConsecutiveSuccesses (counts sample_half_open) = 0" "Requests (counts sample_half_open) = 1"
  "cb_state sample_closed = StateClosed" "expiry sample_closed = Some (10 * Second)"
  "ConsecutiveFailures (counts sample_closed) = 4"
  by (simp_all add: sample_open_def sample_half_open_def sample_closed_def)

lemma take_successes: "take n (successes ts) = successes (take n ts)"
  by (simp add: successes_def take_map)

text \<open>
  C4. An Open breaker rejects every attempt made by the end of its cool-down, and the
  cool-down ends 30 seconds after the breaker became Open, whether a fifth failure
  opened it or a failed probe did; \<^verbatim>\<open>Handle\<close> then answers 503 with the service's name
  and makes no call to the backend. The first attempt after the cool-down is admitted
  and leaves the breaker HalfOpen. Of the attempts that are checked after the cool-down
  with no report in between, the first five are admitted and the others are rejected.
  In HalfOpen a reported failure of a probe opens the breaker again with a cool-down of
  30 seconds from the report, and successes that bring the count of consecutive
  successes to 5 close it, the breaker being HalfOpen until the last of them.
\<close>

theorem C4_open_and_half_open:
  "(cb_state cb = StateOpen \<and> expiry cb = Some e \<and> t \<le> e \<longrightarrow>
      beforeRequest createCircuitBreaker t cb = (Inl ErrOpenState, cb)) \<and>
   (cb_state cb = StateClosed \<and> expiry cb = Some e \<and> t1 \<le> e \<and> t2 \<le> e \<and>
    ConsecutiveFailures (counts cb) = 4 \<and> t \<le> t2 + 30 * Second \<longrightarrow>
      cb_state (snd (attempt createCircuitBreaker t1 t2 False cb)) = StateOpen \<and>
      fst (beforeRequest createCircuitBreaker t (snd (attempt createCircuitBreaker t1 t2 False cb))) = Inl ErrOpenState) \<and>
   (cb_state cb = StateHalfOpen \<and> t \<le> t2 + 30 * Second \<longrightarrow>
      cb_state (afterRequest createCircuitBreaker t2 (generation cb) False cb) = StateOpen \<and>
      expiry (afterRequest createCircuitBreaker t2 (generation cb) False cb) = Some (t2 + 30 * Second) \<and>
      fst (beforeRequest createCircuitBreaker t (afterRequest createCircuitBreaker t2 (generation cb) False cb)) = Inl ErrOpenState) \<and>
   (Services (cfg h) name = Some svc \<and> url_Parse h (ServiceURL svc) = Some u \<and>
    breakers c name = Some cb \<and> cb_state cb = StateOpen \<and> expiry cb = Some e \<and>
    t_before (Env c) \<le> e \<and> \<not> Committed (Response c) \<longrightarrow>
      Status (Response (snd (Handle h name c))) = 503 \<and>
      Body (Response (snd (Handle h name c))) = Body (Response c) @
        [JsonObject [(''error'', JString ''Service temporarily unavailable''), (''service'', JString name)]] \<and>
      trace (snd (Handle h name c)) = trace c @ [BreakerAttempt name] \<and>
      breakers (snd (Handle h name c)) = breakers c) \<and>
   (cb_state cb = StateOpen \<and> expiry cb = Some e \<and> e < t \<longrightarrow>
      fst (beforeRequest createCircuitBreaker t cb) = Inr (generation cb + 1) \<and>
      cb_state (snd (beforeRequest createCircuitBreaker t cb)) = StateHalfOpen \<and>
      Requests (counts (snd (beforeRequest createCircuitBreaker t cb))) = 1) \<and>
   (cb_state cb = StateOpen \<and> expiry cb = Some e \<and> (\<forall>t \<in> set ts. e < t) \<longrightarrow>
      (\<forall>i < length ts. admit_all createCircuitBreaker ts cb ! i =
         (if i < 5 then Inr (generation cb + 1) else Inl ErrTooManyRequests))) \<and>
   (cb_state cb = StateHalfOpen \<and> ConsecutiveSuccesses (counts cb) + length ss = 5 \<and> ss \<noteq> [] \<longrightarrow>
      cb_state (reports createCircuitBreaker (generation cb) (successes ss) cb) = StateClosed \<and>
      (\<forall>n < length ss.
         cb_state (reports createCircuitBreaker (generation cb) (successes (take n ss)) cb) = StateHalfOpen))"
proof -
  have wait: "cb_state cb = StateOpen \<and> expiry cb = Some e \<and> t \<le> e \<longrightarrow>
      beforeRequest createCircuitBreaker t cb = (Inl ErrOpenState, cb)"
    by (simp add: before_open_wait)
  have trip: "cb_state cb = StateClosed \<and> expiry cb = Some e \<and> t1 \<le> e \<and> t2 \<le> e \<and>
    ConsecutiveFailures (counts cb) = 4 \<and> t \<le> t2 + 30 * Second \<longrightarrow>
      cb_state (snd (attempt createCircuitBreaker t1 t2 False cb)) = StateOpen \<and>
      fst (beforeRequest createCircuitBreaker t (snd (attempt createCircuitBreaker t1 t2 False cb))) = Inl ErrOpenState"
    by (auto simp add: attempt_closed_failure before_open_wait)
  have probe_fail: "cb_state cb = StateHalfOpen \<and> t \<le> t2 + 30 * Second \<longrightarrow>
      cb_state (afterRequest createCircuitBreaker t2 (generation cb) False cb) = StateOpen \<and>
      expiry (afterRequest createCircuitBreaker t2 (generation cb) False cb) = Some (t2 + 30 * Second) \<and>
      fst (beforeRequest createCircuitBreaker t (afterRequest createCircuitBreaker t2 (generation cb) False cb)) = Inl ErrOpenState"
    by (auto simp add: after_halfopen_failure before_open_wait)
  have handle: "Services (cfg h) name = Some svc \<and> url_Parse h (ServiceURL svc) = Some u \<and>
    breakers c name = Some cb \<and> cb_state cb = StateOpen \<and> expiry cb = Some e \<and>
    t_before (Env c) \<le> e \<and> \<not> Committed (Response c) \<longrightarrow>
      Status (Response (snd (Handle h name c))) = 503 \<and>
      Body (Response (snd (Handle h name c))) = Body (Response c) @
        [JsonObject [(''error'', JString ''Service temporarily unavailable''), (''service'', JString name)]] \<and>
      trace (snd (Handle h name c)) = trace c @ [BreakerAttempt name] \<and>
      breakers (snd (Handle h name c)) = breakers c"
  proof (intro impI, elim conjE)
    assume a: "Services (cfg h) name = Some svc" "url_Parse h (ServiceURL svc) = Some u"
      "breakers c name = Some cb" "cb_state cb = StateOpen" "expiry cb = Some e"
      "t_before (Env c) \<le> e" "\<not> Committed (Response c)"
    have b: "beforeRequest createCircuitBreaker (t_before (Env c)) cb = (Inl ErrOpenState, cb)"
      using a by (simp add: before_open_wait)
    have same: "(breakers c)(name \<mapsto> cb) = breakers c" using a(3) by (simp add: map_upd_triv)
    show "Status (Response (snd (Handle h name c))) = 503 \<and>
      Body (Response (snd (Handle h name c))) = Body (Response c) @
        [JsonObject [(''error'', JString ''Service temporarily unavailable''), (''service'', JString name)]] \<and>
      trace (snd (Handle h name c)) = trace c @ [BreakerAttempt name] \<and>
      breakers (snd (Handle h name c)) = breakers c"
      using Handle_rejected [OF a(1) a(2) a(3) b] a(7) same
      by (simp add: JSON_response StatusServiceUnavailable_def)
  qed
  have elapsed: "cb_state cb = StateOpen \<and> expiry cb = Some e \<and> e < t \<longrightarrow>
      fst (beforeRequest createCircuitBreaker t cb) = Inr (generation cb + 1) \<and>
      cb_state (snd (beforeRequest createCircuitBreaker t cb)) = StateHalfOpen \<and>
      Requests (counts (snd (beforeRequest createCircuitBreaker t cb))) = 1"
    by (simp add: before_open_elapsed)
  have probes: "cb_state cb = StateOpen \<and> expiry cb = Some e \<and> (\<forall>t \<in> set ts. e < t) \<longrightarrow>
      (\<forall>i < length ts. admit_all createCircuitBreaker ts cb ! i =
         (if i < 5 then Inr (generation cb + 1) else Inl ErrTooManyRequests))"
    using admit_all_after_cooldown [of cb e ts] by blast
  have close: "cb_state cb = StateHalfOpen \<and> ConsecutiveSuccesses (counts cb) + length ss = 5 \<and> ss \<noteq> [] \<longrightarrow>
      cb_state (reports createCircuitBreaker (generation cb) (successes ss) cb) = StateClosed \<and>
      (\<forall>n < length ss.
         cb_state (reports createCircuitBreaker (generation cb) (successes (take n ss)) cb) = StateHalfOpen)"
  proof (intro impI conjI allI, elim conjE)
    assume a: "cb_state cb = StateHalfOpen" "ConsecutiveSuccesses (counts cb) + length ss = 5" "ss \<noteq> []"
    show "cb_state (reports createCircuitBreaker (generation cb) (successes ss) cb) = StateClosed"
      using successes_close [OF a] .
  next
    fix n
    assume a: "cb_state cb = StateHalfOpen \<and> ConsecutiveSuccesses (counts cb) + length ss = 5 \<and> ss \<noteq> []"
      and n: "n < length ss"
    then have "ConsecutiveSuccesses (counts cb) + length (take n ss) < 5" by simp
    then show "cb_state (reports createCircuitBreaker (generation cb) (successes (take n ss)) cb) = StateHalfOpen"
      using successes_stay_halfopen [of cb "take n ss"] a by simp
  qed
  show ?thesis using wait trip probe_fail handle elapsed probes close by (intro conjI)
qed

text \<open>
  An Open breaker whose cool-down ends at 30s, a Closed breaker with four failures
  counted and a HalfOpen breaker with one probe admitted.
\<close>

theorem C4_open_and_half_open_witness:
  "beforeRequest createCircuitBreaker (10 * Second) sample_open = (Inl ErrOpenState, sample_open) \<and>
   cb_state (snd (attempt createCircuitBreaker (4 * Second) (5 * Second) False sample_closed)) = StateOpen \<and>
   fst (beforeRequest createCircuitBreaker (35 * Second)
          (snd (attempt createCircuitBreaker (4 * Second) (5 * Second) False sample_closed))) = Inl ErrOpenState \<and>
   expiry (afterRequest createCircuitBreaker (32 * Second) 2 False sample_half_open) = Some (62 * Second) \<and>
   fst (beforeRequest createCircuitBreaker (62 * Second)
          (afterRequest createCircuitBreaker (32 * Second) 2 False sample_half_open)) = Inl ErrOpenState \<and>
   Status (Response (snd (Handle sample_handler ''user-service''
      (sample_ctx\<lparr>breakers := [''user-service'' \<mapsto> sample_open]\<rparr>)))) = 503 \<and>
   trace (snd (Handle sample_handler ''user-service''
      (sample_ctx\<lparr>breakers := [''user-service'' \<mapsto> sample_open]\<rparr>))) = [BreakerAttempt ''user-service''] \<and>
   fst (beforeRequest createCircuitBreaker (31 * Second) sample_open) = Inr 2 \<and>
   cb_state (snd (beforeRequest createCircuitBreaker (31 * Second) sample_open)) = StateHalfOpen \<and>
   admit_all createCircuitBreaker (replicate 6 (31 * Second)) sample_open ! 4 = Inr 2 \<and>
   admit_all createCircuitBreaker (replicate 6 (31 * Second)) sample_open ! 5 = Inl ErrTooManyRequests \<and>
   cb_state (reports createCircuitBreaker 2
      (successes [32 * Second, 33 * Second, 34 * Second, 35 * Second, 36 * Second]) sample_half_open) = StateClosed \<and>
   cb_state (reports createCircuitBreaker 2
      (successes (take 4 [32 * Second, 33 * Second, 34 * Second, 35 * Second, 36 * Second])) sample_half_open) = StateHalfOpen"
proof -
  let ?c = "sample_ctx\<lparr>breakers := [''user-service'' \<mapsto> sample_open]\<rparr>"
  let ?ss = "[32 * Second, 33 * Second, 34 * Second, 35 * Second, 36 * Second] :: time list"
  have le: "10 * Second \<le> 30 * Second" "(0::int) \<le> 30 * Second" "30 * Second < 31 * Second"
    "4 * Second \<le> 10 * Second" "5 * Second \<le> 10 * Second" "35 * Second \<le> 5 * Second + 30 * Second"
    "62 * Second \<le> 32 * Second + 30 * Second" "32 * Second + 30 * Second = 62 * Second"
    by (simp_all add: Second_def)
  have opn: "beforeRequest createCircuitBreaker (10 * Second) sample_open = (Inl ErrOpenState, sample_open) \<and>
      fst (beforeRequest createCircuitBreaker (31 * Second) sample_open) = Inr 2 \<and>
      cb_state (snd (beforeRequest createCircuitBreaker (31 * Second) sample_open)) = StateHalfOpen"
    using C4_open_and_half_open [of sample_open "30 * Second" "10 * Second"]
      C4_open_and_half_open [of sample_open "30 * Second" "31 * Second"] le
    by simp
  have probes: "admit_all createCircuitBreaker (replicate 6 (31 * Second)) sample_open ! 4 = Inr 2 \<and>
      admit_all createCircuitBreaker (replicate 6 (31 * Second)) sample_open ! 5 = Inl ErrTooManyRequests"
    using C4_open_and_half_open [of sample_open "30 * Second" _ _ _ _ _ _ _ _ "replicate 6 (31 * Second)"] le
    by simp
  have hnd: "Status (Response (snd (Handle sample_handler ''user-service'' ?c))) = 503 \<and>
      trace (snd (Handle sample_handler ''user-service'' ?c)) = [BreakerAttempt ''user-service'']"
    using C4_open_and_half_open [of sample_open "30 * Second" _ _ _ sample_handler "''user-service''"
        "\<lparr>ServiceURL = ''http://users:8080'', CircuitBreaker = True\<rparr>" "\<lparr>Host = ''users:8080'', UPath = []\<rparr>" ?c] le
    by simp
  have trip: "cb_state (snd (attempt createCircuitBreaker (4 * Second) (5 * Second) False sample_closed)) = StateOpen \<and>
      fst (beforeRequest createCircuitBreaker (35 * Second)
          (snd (attempt createCircuitBreaker (4 * Second) (5 * Second) False sample_closed))) = Inl ErrOpenState"
    using C4_open_and_half_open [of sample_closed "10 * Second" "35 * Second" "4 * Second" "5 * Second"] le
    by simp
  have half: "expiry (afterRequest createCircuitBreaker (32 * Second) 2 False sample_half_open) = Some (62 * Second) \<and>
      fst (beforeRequest createCircuitBreaker (62 * Second)
          (afterRequest createCircuitBreaker (32 * Second) 2 False sample_half_open)) = Inl ErrOpenState \<and>
      cb_state (reports createCircuitBreaker 2 (successes ?ss) sample_half_open) = StateClosed \<and>
      cb_state (reports createCircuitBreaker 2 (successes (take 4 ?ss)) sample_half_open) = StateHalfOpen"
    using C4_open_and_half_open [of sample_half_open _ "62 * Second" _ "32 * Second" _ _ _ _ _ _ ?ss] le
    by (simp del: take_Cons_numeral)
  show ?thesis using opn probes hnd trip half by (intro conjI) simp_all
qed

lemma Director_simps [simp]:
  "Director u (emit e c) = Director u c" "Director u (c\<lparr>breakers := b\<rparr>) = Director u c"
  by (simp_all add: Director_def)

text \<open>
  C5. A request is forwarded through the breaker of its service (the breaker admitted
  it). When the backend answers, with whatever status, the breaker is told of a
  success; when the transport fails (the error handler of the reverse proxy runs and
  \<^verbatim>\<open>doProxy\<close> returns the error), it is told of a failure.
\<close>

theorem C5_outcome_classification:
  assumes svc: "Services (cfg h) name = Some svc" and url: "url_Parse h (ServiceURL svc) = Some u"
    and br: "breakers c name = Some cb"
    and adm: "beforeRequest createCircuitBreaker (t_before (Env c)) cb = (Inr gen, cb1)"
  shows "(\<forall>code body. backend_reply (Env c) = Responded code body \<longrightarrow>
            breakers (snd (Handle h name c)) name =
              Some (afterRequest createCircuitBreaker (t_after (Env c)) gen True cb1) \<and>
            trace (snd (Handle h name c)) =
              trace c @ [BreakerAttempt name, BackendCall name (Director u c), BreakerReport name True]) \<and>
         (\<forall>err. backend_reply (Env c) = TransportError err \<longrightarrow>
            breakers (snd (Handle h name c)) name =
              Some (afterRequest createCircuitBreaker (t_after (Env c)) gen False cb1) \<and>
            trace (snd (Handle h name c)) =
              trace c @ [BreakerAttempt name, BackendCall name (Director u c), BreakerReport name False])"
  using Handle_admitted [OF svc url br adm]
  by (simp add: Let_def responded_def)

lemma sample_before:
  "beforeRequest createCircuitBreaker 0 (NewCircuitBreaker createCircuitBreaker 0) =
     (Inr 1, (NewCircuitBreaker createCircuitBreaker 0)\<lparr>counts := onRequest clear\<rparr>)"
  by (simp add: beforeRequest_def currentState_def NewCircuitBreaker_def toNewGeneration_def Let_def Second_def)

lemma sample_failing_fields [simp]:
  "Env sample_failing = sample_env\<lparr>backend_reply := TransportError ''dial tcp 10.0.0.9:8080: connect: connection refused''\<rparr>"
  "breakers sample_failing = [''user-service'' \<mapsto> NewCircuitBreaker createCircuitBreaker 0]"
  "Response sample_failing = new_response" "trace sample_failing = []"
  "Request sample_failing = sample_request"
  by (simp_all add: sample_failing_def)

lemma sample_erring_fields [simp]:
  "Env sample_erring = sample_env\<lparr>backend_reply := Responded 500 ''internal error''\<rparr>"
  "breakers sample_erring = [''user-service'' \<mapsto> NewCircuitBreaker createCircuitBreaker 0]"
  "Response sample_erring = new_response" "trace sample_erring = []"
  "Request sample_erring = sample_request"
  by (simp_all add: sample_erring_def)

text \<open>The backend answers 500 in one request; the connection is refused in another.\<close>

theorem C5_outcome_classification_witness:
  "trace (snd (Handle sample_handler ''user-service'' sample_erring)) =
     [BreakerAttempt ''user-service'',
      BackendCall ''user-service'' (Director \<lparr>Host = ''users:8080'', UPath = []\<rparr> sample_erring),
      BreakerReport ''user-service'' True] \<and>
   breakers (snd (Handle sample_handler ''user-service'' sample_erring)) ''user-service'' =
     Some (afterRequest createCircuitBreaker 0 1 True
             ((NewCircuitBreaker createCircuitBreaker 0)\<lparr>counts := onRequest clear\<rparr>)) \<and>
   trace (snd (Handle sample_handler ''user-service'' sample_failing)) =
     [BreakerAttempt ''user-service'',
      BackendCall ''user-service'' (Director \<lparr>Host = ''users:8080'', UPath = []\<rparr> sample_failing),
      BreakerReport ''user-service'' False] \<and>
   breakers (snd (Handle sample_handler ''user-service'' sample_failing)) ''user-service'' =
     Some (afterRequest createCircuitBreaker 0 1 False
             ((NewCircuitBreaker createCircuitBreaker 0)\<lparr>counts := onRequest clear\<rparr>))"
  using C5_outcome_classification [of sample_handler "''user-service''"
      "\<lparr>ServiceURL = ''http://users:8080'', CircuitBreaker = True\<rparr>" "\<lparr>Host = ''users:8080'', UPath = []\<rparr>"
      sample_erring "NewCircuitBreaker createCircuitBreaker 0" 1
      "(NewCircuitBreaker createCircuitBreaker 0)\<lparr>counts := onRequest clear\<rparr>"]
    C5_outcome_classification [of sample_handler "''user-service''"
      "\<lparr>ServiceURL = ''http://users:8080'', CircuitBreaker = True\<rparr>" "\<lparr>Host = ''users:8080'', UPath = []\<rparr>"
      sample_failing "NewCircuitBreaker createCircuitBreaker 0" 1
      "(NewCircuitBreaker createCircuitBreaker 0)\<lparr>counts := onRequest clear\<rparr>"]
  by (simp add: sample_before)

lemma ErrorHandler_response:
  assumes "\<not> Committed (Response c)" "\<not> Contains (get_header c ''Content-Type'') ''application/json''"
  shows "Response (ErrorHandler c) =
           (Response c)\<lparr>Status := 502, Committed := True,
              Header := (Header (Response c))(''Content-Type'' \<mapsto> ''application/json''),
              Body := Body (Response c) @ [Text ''{\"error\":\"Service Unavailable\"}'']\<rparr>"
  using assms
  by (simp add: ErrorHandler_def Write_def WriteHeader_def set_header_def StatusBadGateway_def Let_def)

lemma get_header_simps [simp]:
  "get_header (emit e c) k = get_header c k" "get_header (c\<lparr>breakers := b\<rparr>) k = get_header c k"
  by (simp_all add: get_header_def)

text \<open>
  C6 (as amended). The outbound call of a request fails at the transport level, and the
  response is not yet committed and declares no JSON content type. Then the response has
  status 502, the content type application/json and the one body
  \<^verbatim>\<open>{"error":"Service Unavailable"}\<close>: a generic message, without the name of the
  service, and the same whatever the transport error and the target URL are.
\<close>

theorem C6_transport_failure_response:
  assumes svc: "Services (cfg h) name = Some svc" and url: "url_Parse h (ServiceURL svc) = Some u"
    and reply: "backend_reply (Env c) = TransportError err"
    and new: "\<not> Committed (Response c)"
    and ct: "\<not> Contains (get_header c ''Content-Type'') ''application/json''"
    and adm: "breakers c name = None \<or>
              (breakers c name = Some cb \<and>
               beforeRequest createCircuitBreaker (t_before (Env c)) cb = (Inr gen, cb1))"
  shows "Response (snd (Handle h name c)) =
           (Response c)\<lparr>Status := 502, Committed := True,
              Header := (Header (Response c))(''Content-Type'' \<mapsto> ''application/json''),
              Body := Body (Response c) @ [Text ''{\"error\":\"Service Unavailable\"}'']\<rparr>"
proof -
  have direct: "Response (snd (doProxy u name c')) =
           (Response c)\<lparr>Status := 502, Committed := True,
              Header := (Header (Response c))(''Content-Type'' \<mapsto> ''application/json''),
              Body := Body (Response c) @ [Text ''{\"error\":\"Service Unavailable\"}'']\<rparr>"
    if "Response c' = Response c" "Env c' = Env c" for c'
    using that reply new ct ErrorHandler_response [of "emit (BackendCall name (Director u c')) c'"]
    by (simp add: doProxy_def Let_def get_header_def)
  from adm show ?thesis
  proof
    assume "breakers c name = None"
    then show ?thesis using Handle_direct [OF svc url] direct [of c] by simp
  next
    assume a: "breakers c name = Some cb \<and>
               beforeRequest createCircuitBreaker (t_before (Env c)) cb = (Inr gen, cb1)"
    show ?thesis
      using Handle_admitted [OF svc url conjunct1 [OF a] conjunct2 [OF a]]
        direct [of "emit (BreakerAttempt name) (c\<lparr>breakers := (breakers c)(name \<mapsto> cb1)\<rparr>)"]
      by (simp add: Let_def)
  qed
qed

text \<open>The connection to the backend of the users service is refused.\<close>

theorem C6_transport_failure_response_witness:
  "Response (snd (Handle sample_handler ''user-service'' sample_failing)) =
     new_response\<lparr>Status := 502, Committed := True,
        Header := [''Content-Type'' \<mapsto> ''application/json''],
        Body := [Text ''{\"error\":\"Service Unavailable\"}'']\<rparr>"
  using C6_transport_failure_response [of sample_handler "''user-service''"
      "\<lparr>ServiceURL = ''http://users:8080'', CircuitBreaker = True\<rparr>" "\<lparr>Host = ''users:8080'', UPath = []\<rparr>"
      sample_failing "''dial tcp 10.0.0.9:8080: connect: connection refused''"
      "NewCircuitBreaker createCircuitBreaker 0" 1
      "(NewCircuitBreaker createCircuitBreaker 0)\<lparr>counts := onRequest clear\<rparr>"]
  by (simp add: sample_before get_header_def HasPrefix_def)

text \<open>The same request: the status is 502, not 503, and the body does not name the service.\<close>

theorem C6_status_counterexample:
  "Status (Response (snd (Handle sample_handler ''user-service'' sample_failing))) = 502 \<and>
   Status (Response (snd (Handle sample_handler ''user-service'' sample_failing))) \<noteq> 503 \<and>
   Body (Response (snd (Handle sample_handler ''user-service'' sample_failing))) =
     [Text ''{\"error\":\"Service Unavailable\"}'']"
proof -
  have "Handle sample_handler ''user-service'' sample_failing =
     (let c1 = emit (BreakerAttempt ''user-service'')
                 (sample_failing\<lparr>breakers := (breakers sample_failing)(''user-service'' \<mapsto>
                    (NewCircuitBreaker createCircuitBreaker 0)\<lparr>counts := onRequest clear\<rparr>)\<rparr>);
          c2 = snd (doProxy \<lparr>Host = ''users:8080'', UPath = []\<rparr> ''user-service'' c1);
          c3 = emit (BreakerReport ''user-service'' (responded (backend_reply (Env sample_failing)))) c2
      in (None, c3\<lparr>breakers := (breakers sample_failing)(''user-service'' \<mapsto>
             afterRequest createCircuitBreaker (t_after (Env sample_failing)) 1
               (responded (backend_reply (Env sample_failing)))
               ((NewCircuitBreaker createCircuitBreaker 0)\<lparr>counts := onRequest clear\<rparr>))\<rparr>))"
    by (rule Handle_admitted [of sample_handler "''user-service''"
      "\<lparr>ServiceURL = ''http://users:8080'', CircuitBreaker = True\<rparr>" "\<lparr>Host = ''users:8080'', UPath = []\<rparr>"])
      (use sample_before in simp_all)
  then show ?thesis
    by (simp add: Let_def doProxy_def ErrorHandler_def get_header_def HasPrefix_def
        Write_def WriteHeader_def set_header_def StatusBadGateway_def)
qed

section \<open>The path rewrite\<close>

lemma HasPrefix_length: "HasPrefix s p \<Longrightarrow> length p \<le> length s"
  by (metis HasPrefix_def length_take min.cobounded1 min.commute)

lemma rewritePath_slash: "HasPrefix (rewritePath p) ''/''"
  by (auto simp add: rewritePath_def Let_def HasPrefix_def)

lemma rewritePath_fixed:
  "(rewritePath q = q) = (HasPrefix q ''/'' \<and> \<not> HasPrefix q ''/api'')"
proof (cases "HasPrefix q ''/api''")
  case True
  then have len: "4 \<le> length q" using HasPrefix_length [of q "''/api''"] by simp
  have "length (rewritePath q) < length q"
    using True len by (auto simp add: rewritePath_def TrimPrefix_def Let_def)
  then show ?thesis using True by auto
next
  case False
  then show ?thesis by (auto simp add: rewritePath_def TrimPrefix_def Let_def HasPrefix_def)
qed

lemma HasPrefix_split: "HasPrefix p r \<Longrightarrow> p = r @ drop (length r) p"
  by (metis HasPrefix_def append_take_drop_id)

lemma rewritePath_routed:
  assumes "r \<in> set [''/api/auth/'', ''/api/transfers/'', ''/api/users/'', ''/api/reporting/'', ''/api/aml/'']"
    and "HasPrefix p r"
  shows "\<not> HasPrefix (rewritePath p) ''/api''"
proof -
  obtain rest where p: "p = r @ rest" using HasPrefix_split [OF assms(2)] by blast
  show ?thesis using assms(1) unfolding p
    by (auto simp add: rewritePath_def TrimPrefix_def HasPrefix_def Let_def)
qed

lemma rewritePath_stripped:
  "rewritePath (''/api'' @ rest) = (if HasPrefix rest ''/'' then rest else ''/'' @ rest)"
  by (auto simp add: rewritePath_def TrimPrefix_def HasPrefix_def Let_def)

lemma rewritePath_other:
  "\<not> HasPrefix p ''/api'' \<Longrightarrow> rewritePath p = (if HasPrefix p ''/'' then p else ''/'' @ p)"
  by (auto simp add: rewritePath_def TrimPrefix_def HasPrefix_def Let_def)

lemma join_plain:
  "a = [] \<or> a = ''/'' \<Longrightarrow> HasPrefix q ''/'' \<Longrightarrow> singleJoiningSlash a q = q"
  by (cases q) (auto simp add: singleJoiningSlash_def HasPrefix_def HasSuffix_def Let_def)

lemma Director_routed:
  assumes r: "r \<in> set [''/api/auth/'', ''/api/transfers/'', ''/api/users/'', ''/api/reporting/'', ''/api/aml/'']"
    and u: "UPath u = [] \<or> UPath u = ''/''"
    and q: "HasPrefix (URLPath (Request c)) r"
  shows "out_Path (Director u c) = drop 4 (URLPath (Request c)) \<and>
         \<not> HasPrefix (out_Path (Director u c)) ''//'' \<and>
         rewritePath (out_Path (Director u c)) = out_Path (Director u c)"
proof -
  obtain rest where p: "URLPath (Request c) = r @ rest" using HasPrefix_split [OF q] by blast
  have sl: "HasPrefix (URLPath (Request c)) ''/''" using r unfolding p by (auto simp add: HasPrefix_def)
  have j: "singleJoiningSlash (UPath u) (URLPath (Request c)) = URLPath (Request c)"
    by (rule join_plain [OF u sl])
  have o: "out_Path (Director u c) = rewritePath (URLPath (Request c))"
    by (simp add: Director_def j)
  have "rewritePath (URLPath (Request c)) = drop 4 (URLPath (Request c))"
    using r unfolding p by (auto simp add: rewritePath_def TrimPrefix_def HasPrefix_def Let_def)
  moreover have "\<not> HasPrefix (drop 4 (URLPath (Request c))) ''//''"
    using r unfolding p by (auto simp add: HasPrefix_def)
  moreover have "rewritePath (rewritePath (URLPath (Request c))) = rewritePath (URLPath (Request c))"
    using rewritePath_routed [OF r q] rewritePath_fixed [of "rewritePath (URLPath (Request c))"]
      rewritePath_slash [of "URLPath (Request c)"] by simp
  ultimately show ?thesis using o by simp
qed

text \<open>
  C8 (as amended). The rewrite is a function of the path alone, and its result begins
  with a slash. A path that begins with /api loses that prefix once, and what is left
  is the result when it begins with a slash and gets one slash put in front when it does
  not (so also when it is empty); a path that does not begin with /api is the result as
  it is when it begins with a slash and gets one slash put in front when it does not.
  Rewriting twice gives the same as rewriting once exactly when the rewritten path does
  not begin with /api again. For a request under one of the registered route prefixes
  and a target URL whose path is empty or a single slash, the path the director sends is
  the request's path without /api, it does not begin with two slashes, and rewriting it
  again does not change it.
\<close>

theorem C8_path_rewrite:
  "HasPrefix (rewritePath p) ''/'' \<and>
   rewritePath (''/api'' @ rest) = (if HasPrefix rest ''/'' then rest else ''/'' @ rest) \<and>
   (\<not> HasPrefix p ''/api'' \<longrightarrow> rewritePath p = (if HasPrefix p ''/'' then p else ''/'' @ p)) \<and>
   (rewritePath (rewritePath p) = rewritePath p) = (\<not> HasPrefix (rewritePath p) ''/api'') \<and>
   (\<forall>r \<in> set [''/api/auth/'', ''/api/transfers/'', ''/api/users/'', ''/api/reporting/'', ''/api/aml/''].
      (UPath u = [] \<or> UPath u = ''/'') \<and> HasPrefix (URLPath (Request c)) r \<longrightarrow>
        out_Path (Director u c) = drop 4 (URLPath (Request c)) \<and>
        \<not> HasPrefix (out_Path (Director u c)) ''//'' \<and>
        rewritePath (out_Path (Director u c)) = out_Path (Director u c))"
proof -
  have fixed: "(rewritePath (rewritePath p) = rewritePath p) = (\<not> HasPrefix (rewritePath p) ''/api'')"
    using rewritePath_fixed [of "rewritePath p"] rewritePath_slash [of p] by simp
  have other: "\<not> HasPrefix p ''/api'' \<longrightarrow> rewritePath p = (if HasPrefix p ''/'' then p else ''/'' @ p)"
    using rewritePath_other [of p] by blast
  have routed: "\<forall>r \<in> set [''/api/auth/'', ''/api/transfers/'', ''/api/users/'', ''/api/reporting/'', ''/api/aml/''].
      (UPath u = [] \<or> UPath u = ''/'') \<and> HasPrefix (URLPath (Request c)) r \<longrightarrow>
        out_Path (Director u c) = drop 4 (URLPath (Request c)) \<and>
        \<not> HasPrefix (out_Path (Director u c)) ''//'' \<and>
        rewritePath (out_Path (Director u c)) = out_Path (Director u c)"
    using Director_routed [of _ u c] by blast
  show ?thesis
    using rewritePath_slash [of p] rewritePath_stripped [of rest] other fixed routed by (intro conjI)
qed

text \<open>
  A request for /api/users/42 forwarded to a target URL with an empty path, and a path
  that does not begin with /api or with a slash.
\<close>

theorem C8_path_rewrite_witness:
  "out_Path (Director \<lparr>Host = ''users:8080'', UPath = []\<rparr> sample_ctx) = ''/users/42'' \<and>
   rewritePath (out_Path (Director \<lparr>Host = ''users:8080'', UPath = []\<rparr> sample_ctx)) =
     out_Path (Director \<lparr>Host = ''users:8080'', UPath = []\<rparr> sample_ctx) \<and>
   rewritePath ''users'' = ''/users''"
proof -
  note inst = C8_path_rewrite [of "''users''" _ "\<lparr>Host = ''users:8080'', UPath = []\<rparr>" sample_ctx]
  have q: "URLPath (Request sample_ctx) = ''/api/users/42''" by (simp add: sample_request_def)
  have pre: "HasPrefix (URLPath (Request sample_ctx)) ''/api/users/''"
    by (simp add: sample_request_def HasPrefix_def)
  have mem: "''/api/users/'' \<in> set [''/api/auth/'', ''/api/transfers/'', ''/api/users/'', ''/api/reporting/'', ''/api/aml/'']"
    by simp
  have up: "UPath \<lparr>Host = ''users:8080'', UPath = []\<rparr> = [] \<or> UPath \<lparr>Host = ''users:8080'', UPath = []\<rparr> = ''/''"
    by simp
  have np: "\<not> HasPrefix ''users'' ''/api''" "\<not> HasPrefix ''users'' ''/''" by (simp_all add: HasPrefix_def)
  have a: "out_Path (Director \<lparr>Host = ''users:8080'', UPath = []\<rparr> sample_ctx) = drop 4 (URLPath (Request sample_ctx)) \<and>
      \<not> HasPrefix (out_Path (Director \<lparr>Host = ''users:8080'', UPath = []\<rparr> sample_ctx)) ''//'' \<and>
      rewritePath (out_Path (Director \<lparr>Host = ''users:8080'', UPath = []\<rparr> sample_ctx)) =
        out_Path (Director \<lparr>Host = ''users:8080'', UPath = []\<rparr> sample_ctx)"
    by (rule conjunct2 [OF conjunct2 [OF conjunct2 [OF conjunct2 [OF inst]]], rule_format, OF mem conjI [OF up pre]])
  have b: "rewritePath ''users'' = ''/users''"
    using conjunct1 [OF conjunct2 [OF conjunct2 [OF inst]]] np by simp
  have d: "drop 4 (URLPath (Request sample_ctx)) = ''/users/42''" by (simp add: sample_request_def)
  have a1: "out_Path (Director \<lparr>Host = ''users:8080'', UPath = []\<rparr> sample_ctx) = ''/users/42''"
    using conjunct1 [OF a] d by (rule trans)
  show ?thesis
    by (rule conjI [OF a1 conjI [OF conjunct2 [OF conjunct2 [OF a]] b]])
qed

text \<open>
  A request for /api/users/42 forwarded to a target URL whose path is /api: the director
  joins the two to /api/api/users/42 and sends /api/users/42, and rewriting that again
  gives /users/42. With the target path /api// the path sent begins with two slashes.
\<close>

theorem C8_path_rewrite_counterexample:
  "out_Path (Director \<lparr>Host = ''users:8080'', UPath = ''/api''\<rparr> sample_ctx) = ''/api/users/42'' \<and>
   rewritePath (out_Path (Director \<lparr>Host = ''users:8080'', UPath = ''/api''\<rparr> sample_ctx)) = ''/users/42'' \<and>
   singleJoiningSlash ''/api'' (URLPath (Request sample_ctx)) = ''/api/api/users/42'' \<and>
   rewritePath (rewritePath ''/api/api/users/42'') \<noteq> rewritePath ''/api/api/users/42'' \<and>
   out_Path (Director \<lparr>Host = ''users:8080'', UPath = ''/api//''\<rparr> sample_ctx) = ''//api/users/42''"
  by (simp add: Director_def sample_request_def rewritePath_def TrimPrefix_def HasPrefix_def HasSuffix_def
      singleJoiningSlash_def)

section \<open>The routes\<close>

lemma stages_from_mono: "stages_from k h \<Longrightarrow> j \<le> k \<Longrightarrow> stages_from j h"
  unfolding stages_from_def by (meson le_trans)

lemma stages_from_JSON: "stages_from k (JSON code obj)"
  unfolding stages_from_def by simp

lemma stages_from_health: "stages_from k health"
  unfolding stages_from_def health_def by simp

lemma Handle_cases:
  "(\<exists>code obj c1. Handle h name c = JSON code obj c1 \<and> (code = 503 \<or> code = 500) \<and>
       store c1 = store c \<and> Response c1 = Response c \<and>
       (trace c1 = trace c \<or> trace c1 = trace c @ [BreakerAttempt name])) \<or>
   (\<exists>u cb gen cb1. breakers c name = Some cb \<and>
       beforeRequest createCircuitBreaker (t_before (Env c)) cb = (Inr gen, cb1) \<and>
       trace (snd (Handle h name c)) =
         trace c @ [BreakerAttempt name, BackendCall name (Director u c),
                    BreakerReport name (responded (backend_reply (Env c)))]) \<or>
   (\<exists>u. breakers c name = None \<and>
       trace (snd (Handle h name c)) = trace c @ [BackendCall name (Director u c)])"
proof (cases "Services (cfg h) name")
  case None
  then have "Handle h name c = JSON 503 [(''error'', JString ''Service not configured'')] c"
    by (simp add: Handle_def StatusServiceUnavailable_def)
  then show ?thesis by blast
next
  case (Some svc)
  show ?thesis
  proof (cases "url_Parse h (ServiceURL svc)")
    case None
    then have "Handle h name c = JSON 500 [(''error'', JString ''Configuration error'')] c"
      using Some by (simp add: Handle_def StatusInternalServerError_def)
    then show ?thesis by blast
  next
    case u: (Some u)
    show ?thesis
    proof (cases "breakers c name")
      case None
      then show ?thesis using Handle_direct [OF Some u None] by auto
    next
      case cb: (Some cb)
      obtain r cb1 where b: "beforeRequest createCircuitBreaker (t_before (Env c)) cb = (r, cb1)"
        by (cases "beforeRequest createCircuitBreaker (t_before (Env c)) cb")
      show ?thesis
      proof (cases r)
        case (Inl err)
        have "Handle h name c =
           JSON 503 [(''error'', JString ''Service temporarily unavailable''), (''service'', JString name)]
             (emit (BreakerAttempt name) (c\<lparr>breakers := (breakers c)(name \<mapsto> cb1)\<rparr>))"
          using Handle_rejected [OF Some u cb] b Inl by (simp add: StatusServiceUnavailable_def)
        then have "\<exists>code obj c1. Handle h name c = JSON code obj c1 \<and> (code = 503 \<or> code = 500) \<and>
            store c1 = store c \<and> Response c1 = Response c \<and>
            (trace c1 = trace c \<or> trace c1 = trace c @ [BreakerAttempt name])"
          by (intro exI [of _ 503] exI [of _ "[(''error'', JString ''Service temporarily unavailable''), (''service'', JString name)]"]
              exI [of _ "emit (BreakerAttempt name) (c\<lparr>breakers := (breakers c)(name \<mapsto> cb1)\<rparr>)"]) simp
        then show ?thesis by (rule disjI1)
      next
        case (Inr gen)
        have "trace (snd (Handle h name c)) =
           trace c @ [BreakerAttempt name, BackendCall name (Director u c),
                      BreakerReport name (responded (backend_reply (Env c)))]"
          using Handle_admitted [OF Some u cb] b Inr by (simp add: Let_def)
        then show ?thesis using cb b Inr by blast
      qed
    qed
  qed
qed

lemma stages_from_Handle: "stages_from 2 (Handle h name)"
  unfolding stages_from_def
proof
  fix c
  show "\<exists>evs. trace (snd (Handle h name c)) = trace c @ evs \<and> sorted (map stage evs) \<and> (\<forall>e \<in> set evs. 2 \<le> stage e)"
    using Handle_cases [of h name c]
    by (elim disjE exE conjE) auto
qed


lemma checkLimit_cases:
  "(\<exists>c1. (\<forall>next. checkLimit c next key pol = next c1) \<and>
         trace c1 = trace c @ [StoreIncr key] \<and> breakers c1 = breakers c \<and>
         Committed (Response c1) = Committed (Response c) \<and>
         Status (Response c1) = Status (Response c) \<and> Body (Response c1) = Body (Response c) \<and>
         (case fst (IncrementWithExpiry (incr_ok (Env c)) (t_incr (Env c)) (store c) key (Window pol)) of
            Inl err \<Rightarrow> True | Inr n \<Rightarrow> n \<le> Limit pol)) \<or>
   (\<exists>obj c1. (\<forall>next. checkLimit c next key pol = JSON 429 obj c1) \<and>
         trace c1 = trace c @ [StoreIncr key, StoreTTL key] \<and> breakers c1 = breakers c \<and>
         Committed (Response c1) = Committed (Response c) \<and>
         Status (Response c1) = Status (Response c) \<and> Body (Response c1) = Body (Response c) \<and>
         (\<exists>n. fst (IncrementWithExpiry (incr_ok (Env c)) (t_incr (Env c)) (store c) key (Window pol)) = Inr n \<and>
              Limit pol < n))"
proof -
  obtain r st where inc: "IncrementWithExpiry (incr_ok (Env c)) (t_incr (Env c)) (store c) key (Window pol) = (r, st)"
    by (cases "IncrementWithExpiry (incr_ok (Env c)) (t_incr (Env c)) (store c) key (Window pol)")
  show ?thesis
  proof (cases r)
    case (Inl err)
    have "\<forall>next. checkLimit c next key pol = next (emit (StoreIncr key) (c\<lparr>store := st\<rparr>))"
      using inc Inl by (simp add: checkLimit_def)
    then show ?thesis using inc Inl
      by (intro disjI1 exI [of _ "emit (StoreIncr key) (c\<lparr>store := st\<rparr>)"]) simp
  next
    case (Inr n)
    show ?thesis
    proof (cases "Limit pol < n")
      case False
      let ?c1 = "set_header ''X-RateLimit-Remaining'' (FormatInt (max 0 (Limit pol - n)))
            (set_header ''X-RateLimit-Limit'' (FormatInt (Limit pol))
              (emit (StoreIncr key) (c\<lparr>store := st\<rparr>)))"
      have "\<forall>next. checkLimit c next key pol = next ?c1"
        using inc Inr False by (simp add: checkLimit_def Let_def)
      then show ?thesis using inc Inr False
        by (intro disjI1 exI [of _ ?c1]) simp
    next
      case True
      let ?c3 = "set_header ''X-RateLimit-Remaining'' (FormatInt (max 0 (Limit pol - n)))
            (set_header ''X-RateLimit-Limit'' (FormatInt (Limit pol))
              (emit (StoreIncr key) (c\<lparr>store := st\<rparr>)))"
      let ?ttl = "case TTL (ttl_ok (Env c)) (t_ttl (Env c)) st key of Inl err \<Rightarrow> 0 | Inr d \<Rightarrow> d"
      let ?ra = "if Seconds ?ttl \<le> 0 then Seconds (Window pol) else Seconds ?ttl"
      let ?c5 = "set_header ''Retry-After'' (FormatInt ?ra) (emit (StoreTTL key) ?c3)"
      have "\<forall>next. checkLimit c next key pol =
              JSON 429 [(''error'', JString ''Rate limit exceeded''), (''retry_after'', JNumber ?ra)] ?c5"
        using inc Inr True by (simp add: checkLimit_def Let_def StatusTooManyRequests_def)
      then show ?thesis using inc Inr True
        by (intro disjI2 exI [of _ "[(''error'', JString ''Rate limit exceeded''), (''retry_after'', JNumber ?ra)]"]
            exI [of _ ?c5]) simp
    qed
  qed
qed

lemma stages_from_checkLimit:
  assumes "stages_from 2 next"
  shows "stages_from 1 (\<lambda>c. checkLimit c next (key c) pol)"
  unfolding stages_from_def
proof
  fix c
  from checkLimit_cases [of c "key c" pol]
  show "\<exists>evs. trace (snd (checkLimit c next (key c) pol)) = trace c @ evs \<and>
          sorted (map stage evs) \<and> (\<forall>e \<in> set evs. 1 \<le> stage e)"
  proof (elim disjE exE conjE)
    fix c1
    assume a: "\<forall>next. checkLimit c next (key c) pol = next c1" "trace c1 = trace c @ [StoreIncr (key c)]"
    obtain evs where e: "trace (snd (next c1)) = trace c1 @ evs" "sorted (map stage evs)" "\<forall>e \<in> set evs. 2 \<le> stage e"
      using assms unfolding stages_from_def by blast
    have "trace (snd (checkLimit c next (key c) pol)) = trace c @ (StoreIncr (key c) # evs)"
      using a e by simp
    moreover have "sorted (map stage (StoreIncr (key c) # evs))" using e by auto
    moreover have "\<forall>e \<in> set (StoreIncr (key c) # evs). 1 \<le> stage e" using e by auto
    ultimately show ?thesis by blast
  next
    fix obj c1
    assume a: "\<forall>next. checkLimit c next (key c) pol = JSON 429 obj c1"
      "trace c1 = trace c @ [StoreIncr (key c), StoreTTL (key c)]"
    then have "trace (snd (checkLimit c next (key c) pol)) = trace c @ [StoreIncr (key c), StoreTTL (key c)]"
      by simp
    then show ?thesis by (intro exI [of _ "[StoreIncr (key c), StoreTTL (key c)]"]) simp
  qed
qed

lemma stages_from_RateLimit:
  assumes "stages_from 2 next"
  shows "stages_from 1 (RateLimitByIP pol next)" "stages_from 1 (RateLimitByUser pol next)"
proof -
  have ip: "RateLimitByIP pol next =
      (\<lambda>c. checkLimit c next (''ratelimit:ip:'' @ RealIP (Request c) @ '':'' @ Path (Request c)) pol)"
    by (rule ext) (simp add: RateLimitByIP_def Let_def)
  have user: "RateLimitByUser pol next =
      (\<lambda>c. checkLimit c next (''ratelimit:user:'' @
               (case user_id c of None \<Rightarrow> RealIP (Request c) | Some u \<Rightarrow> if u = [] then RealIP (Request c) else u)
               @ '':'' @ Path (Request c)) pol)"
    by (rule ext) (simp add: RateLimitByUser_def Let_def)
  show "stages_from 1 (RateLimitByIP pol next)" unfolding ip by (rule stages_from_checkLimit [OF assms])
  show "stages_from 1 (RateLimitByUser pol next)" unfolding user by (rule stages_from_checkLimit [OF assms])
qed


lemma VT_missing:
  "Authorization (Request c) = [] \<Longrightarrow>
   ValidateToken m next c = JSON 401 [(''error'', JString ''Missing authorization header'')] c"
  by (simp add: ValidateToken_def StatusUnauthorized_def)

lemma VT_format:
  "Authorization (Request c) \<noteq> [] \<Longrightarrow>
   length (Split (Authorization (Request c))) \<noteq> 2 \<or> Split (Authorization (Request c)) ! 0 \<noteq> ''Bearer'' \<Longrightarrow>
   ValidateToken m next c = JSON 401 [(''error'', JString ''Invalid authorization format'')] c"
  unfolding ValidateToken_def Let_def StatusUnauthorized_def
  by (simp only: if_False if_True)

lemma VT_wellformed:
  assumes "Authorization (Request c) \<noteq> []"
    and "length (Split (Authorization (Request c))) = 2"
    and "Split (Authorization (Request c)) ! 0 = ''Bearer''"
    and "(case auth_redisClient m of
            None \<Rightarrow> (False, c)
          | Some r \<Rightarrow>
              (case blacklist_reply (Env c) of
                 Inl err \<Rightarrow> (False, emit (BlacklistLookup (Split (Authorization (Request c)) ! 1)) c)
               | Inr b \<Rightarrow> (b, emit (BlacklistLookup (Split (Authorization (Request c)) ! 1)) c))) = (black, c1)"
  shows "ValidateToken m next c =
     (if black then JSON 401 [(''error'', JString ''Token has been revoked'')] c1
      else case jwt_reply (Env c1) of
             JwtError \<Rightarrow> JSON 401 [(''error'', JString ''Invalid token'')] (emit (TokenParse (Split (Authorization (Request c)) ! 1)) c1)
           | JwtToken valid sub \<Rightarrow>
               if \<not> valid then JSON 401 [(''error'', JString ''Token is invalid'')] (emit (TokenParse (Split (Authorization (Request c)) ! 1)) c1)
               else (case sub of
                       None \<Rightarrow> next (emit (TokenParse (Split (Authorization (Request c)) ! 1)) c1)
                     | Some u \<Rightarrow> next ((emit (TokenParse (Split (Authorization (Request c)) ! 1)) c1)\<lparr>user_id := Some u\<rparr>)))"
proof -
  have a: "(Authorization (Request c) = []) = False"
    "(length (Split (Authorization (Request c))) \<noteq> 2 \<or> Split (Authorization (Request c)) ! 0 \<noteq> ''Bearer'') = False"
    using assms by simp_all
  show ?thesis
    unfolding ValidateToken_def Let_def StatusUnauthorized_def a if_False assms(4) prod.case emit_fields
    by (rule refl)
qed

lemma ValidateToken_cases:
  "(\<exists>c1. (\<forall>next. ValidateToken m next c = next c1) \<and>
         Response c1 = Response c \<and> store c1 = store c \<and> breakers c1 = breakers c \<and> Env c1 = Env c \<and>
         (\<exists>evs. trace c1 = trace c @ evs \<and> (\<forall>e \<in> set evs. stage e = 0) \<and>
            (auth_redisClient m = None \<longrightarrow> (\<forall>tok. BlacklistLookup tok \<notin> set evs)))) \<or>
   (\<exists>obj c1. (\<forall>next. ValidateToken m next c = JSON 401 obj c1) \<and>
         Response c1 = Response c \<and> store c1 = store c \<and> breakers c1 = breakers c \<and> Env c1 = Env c \<and>
         (\<exists>evs. trace c1 = trace c @ evs \<and> (\<forall>e \<in> set evs. stage e = 0) \<and>
            (auth_redisClient m = None \<longrightarrow> (\<forall>tok. BlacklistLookup tok \<notin> set evs))))"
proof -
  let ?pass = "\<lambda>c1. Response c1 = Response c \<and> store c1 = store c \<and> breakers c1 = breakers c \<and> Env c1 = Env c \<and>
         (\<exists>evs. trace c1 = trace c @ evs \<and> (\<forall>e \<in> set evs. stage e = 0) \<and>
            (auth_redisClient m = None \<longrightarrow> (\<forall>tok. BlacklistLookup tok \<notin> set evs)))"
  have deny: "?thesis" if "\<forall>next. ValidateToken m next c = JSON 401 obj c1" "?pass c1" for obj c1
    by (rule disjI2, rule exI [of _ obj], rule exI [of _ c1], rule conjI [OF that])
  have pass: "?thesis" if "\<forall>next. ValidateToken m next c = next c1" "?pass c1" for c1
    by (rule disjI1, rule exI [of _ c1], rule conjI [OF that])
  have ext: "?pass c1" if "Response c1 = Response c" "store c1 = store c" "breakers c1 = breakers c"
    "Env c1 = Env c" "trace c1 = trace c @ evs" "\<forall>e \<in> set evs. stage e = 0"
    "auth_redisClient m = None \<longrightarrow> (\<forall>tok. BlacklistLookup tok \<notin> set evs)" for c1 evs
    using that by (intro conjI exI [of _ evs])
  have p0: "?pass c" by (rule ext [of c "[]"]) simp_all
  let ?parts = "Split (Authorization (Request c))"
  let ?tok = "?parts ! 1"
  consider (missing) "Authorization (Request c) = []"
    | (format) "Authorization (Request c) \<noteq> []" "length ?parts \<noteq> 2 \<or> ?parts ! 0 \<noteq> ''Bearer''"
    | (wf) "Authorization (Request c) \<noteq> []" "length ?parts = 2" "?parts ! 0 = ''Bearer''"
    by blast
  then show ?thesis
  proof cases
    case missing
    then have "\<forall>next. ValidateToken m next c = JSON 401 [(''error'', JString ''Missing authorization header'')] c"
      by (simp only: VT_missing) simp
    then show ?thesis using p0 by (rule deny)
  next
    case format
    then have "\<forall>next. ValidateToken m next c = JSON 401 [(''error'', JString ''Invalid authorization format'')] c"
      using VT_format [of c m] by blast
    then show ?thesis using p0 by (rule deny)
  next
    case wf
    obtain black c1 where bl: "(case auth_redisClient m of
            None \<Rightarrow> (False, c)
          | Some r \<Rightarrow>
              (case blacklist_reply (Env c) of
                 Inl err \<Rightarrow> (False, emit (BlacklistLookup ?tok) c)
               | Inr b \<Rightarrow> (b, emit (BlacklistLookup ?tok) c))) = (black, c1)"
      by (meson surj_pair)
    have c1: "c1 = c \<and> auth_redisClient m = None \<or> c1 = emit (BlacklistLookup ?tok) c \<and> auth_redisClient m \<noteq> None"
      using bl by (auto split: option.splits sum.splits)
    define evs where "evs = (if auth_redisClient m = None then [] else [BlacklistLookup ?tok])"
    have c1f: "Response c1 = Response c" "store c1 = store c" "breakers c1 = breakers c"
      "Env c1 = Env c" "trace c1 = trace c @ evs"
      using c1 by (auto simp add: evs_def)
    have p1: "?pass c1" by (rule ext [of c1 evs]) (simp_all add: c1f, simp_all add: evs_def)
    let ?c2 = "emit (TokenParse ?tok) c1"
    have p2: "?pass ?c2" by (rule ext [of ?c2 "evs @ [TokenParse ?tok]"]) (simp_all add: c1f, auto simp add: evs_def)
    have p3: "?pass (?c2\<lparr>user_id := Some u\<rparr>)" for u
      by (rule ext [of "?c2\<lparr>user_id := Some u\<rparr>" "evs @ [TokenParse ?tok]"]) (simp_all add: c1f, auto simp add: evs_def)
    have env: "Env c1 = Env c" by (rule c1f)
    note unf = VT_wellformed [OF wf bl, unfolded env]
    show ?thesis
    proof (cases black)
      case True
      have "\<forall>next. ValidateToken m next c = JSON 401 [(''error'', JString ''Token has been revoked'')] c1"
        by (simp only: unf True if_True) simp
      then show ?thesis using p1 by (rule deny)
    next
      case nb: False
      show ?thesis
      proof (cases "jwt_reply (Env c)")
        case JwtError
        have "\<forall>next. ValidateToken m next c = JSON 401 [(''error'', JString ''Invalid token'')] ?c2"
          by (simp only: unf nb if_False JwtError jwt_result.case) simp
        then show ?thesis using p2 by (rule deny)
      next
        case (JwtToken valid sub)
        show ?thesis
        proof (cases valid)
          case False
          have "\<forall>next. ValidateToken m next c = JSON 401 [(''error'', JString ''Token is invalid'')] ?c2"
            by (simp only: unf nb if_False JwtToken jwt_result.case False not_False_eq_True if_True) simp
          then show ?thesis using p2 by (rule deny)
        next
          case True
          show ?thesis
          proof (cases sub)
            case None
            have "\<forall>next. ValidateToken m next c = next ?c2"
              by (simp only: unf nb if_False JwtToken jwt_result.case True not_True_eq_False None option.case) simp
            then show ?thesis using p2 by (rule pass)
          next
            case (Some u)
            have "\<forall>next. ValidateToken m next c = next (?c2\<lparr>user_id := Some u\<rparr>)"
              by (simp only: unf nb if_False JwtToken jwt_result.case True not_True_eq_False Some option.case) simp
            then show ?thesis using p3 by (rule pass)
          qed
        qed
      qed
    qed
  qed
qed


lemma sorted_stage_zero: "\<forall>e \<in> set evs. stage e = 0 \<Longrightarrow> sorted (map stage evs)"
  by (induction evs) auto

lemma stages_from_ValidateToken:
  assumes "stages_from 1 next"
  shows "stages_from 0 (ValidateToken m next)"
  unfolding stages_from_def
proof
  fix c
  from ValidateToken_cases [of m c]
  show "\<exists>evs. trace (snd (ValidateToken m next c)) = trace c @ evs \<and>
          sorted (map stage evs) \<and> (\<forall>e \<in> set evs. 0 \<le> stage e)"
  proof (elim disjE exE conjE)
    fix c1 evs
    assume a: "\<forall>next. ValidateToken m next c = next c1" "trace c1 = trace c @ evs" "\<forall>e \<in> set evs. stage e = 0"
    obtain evs' where e: "trace (snd (next c1)) = trace c1 @ evs'" "sorted (map stage evs')"
      using assms unfolding stages_from_def by blast
    have "trace (snd (ValidateToken m next c)) = trace c @ (evs @ evs')" using a e by simp
    moreover have "sorted (map stage (evs @ evs'))"
      using a(3) e(2) sorted_stage_zero [OF a(3)] by (simp add: sorted_append)
    ultimately show ?thesis by blast
  next
    fix obj c1 evs
    assume a: "\<forall>next. ValidateToken m next c = JSON 401 obj c1" "trace c1 = trace c @ evs" "\<forall>e \<in> set evs. stage e = 0"
    have "trace (snd (ValidateToken m next c)) = trace c @ evs" using a by simp
    moreover have "sorted (map stage evs)" using a(3) by (rule sorted_stage_zero)
    ultimately show ?thesis by blast
  qed
qed

lemma setupRoutes_patterns:
  "map pattern (setupRoutes s) =
     [''/health'', ''/api/auth/*'', ''/api/transfers/*'', ''/api/users/*'', ''/api/reporting/*'', ''/api/aml/*'']"
  by (simp add: setupRoutes_def Let_def Any_def Use_def SubGroup_def echo_Group_def split: option.splits)

lemma setupRoutes_handlers:
  "map handler (setupRoutes s) =
     (case redisClient s of
        Some rc \<Rightarrow>
          [health,
           AuthRateLimiter NewRateLimiter (Handle \<lparr>cfg = server_cfg s, url_Parse = server_url_Parse s\<rparr> ''auth-service''),
           ValidateToken (NewAuthMiddleware (redisClient s))
             (TransferRateLimiter NewRateLimiter (Handle \<lparr>cfg = server_cfg s, url_Parse = server_url_Parse s\<rparr> ''transaction-service'')),
           ValidateToken (NewAuthMiddleware (redisClient s))
             (DefaultRateLimiter NewRateLimiter (Handle \<lparr>cfg = server_cfg s, url_Parse = server_url_Parse s\<rparr> ''user-service'')),
           ValidateToken (NewAuthMiddleware (redisClient s))
             (DefaultRateLimiter NewRateLimiter (Handle \<lparr>cfg = server_cfg s, url_Parse = server_url_Parse s\<rparr> ''reporting-service'')),
           ValidateToken (NewAuthMiddleware (redisClient s))
             (DefaultRateLimiter NewRateLimiter (Handle \<lparr>cfg = server_cfg s, url_Parse = server_url_Parse s\<rparr> ''aml-service''))]
      | None \<Rightarrow>
          [health,
           Handle \<lparr>cfg = server_cfg s, url_Parse = server_url_Parse s\<rparr> ''auth-service'',
           ValidateToken (NewAuthMiddleware (redisClient s))
             (Handle \<lparr>cfg = server_cfg s, url_Parse = server_url_Parse s\<rparr> ''transaction-service''),
           ValidateToken (NewAuthMiddleware (redisClient s))
             (Handle \<lparr>cfg = server_cfg s, url_Parse = server_url_Parse s\<rparr> ''user-service''),
           ValidateToken (NewAuthMiddleware (redisClient s))
             (Handle \<lparr>cfg = server_cfg s, url_Parse = server_url_Parse s\<rparr> ''reporting-service''),
           ValidateToken (NewAuthMiddleware (redisClient s))
             (Handle \<lparr>cfg = server_cfg s, url_Parse = server_url_Parse s\<rparr> ''aml-service'')])"
  by (simp add: setupRoutes_def Let_def Any_def Use_def SubGroup_def echo_Group_def applyMiddleware_def
      split: option.splits)

lemma routes_ordered:
  assumes "h \<in> set (map handler (setupRoutes s))"
  shows "stages_from 0 h"
proof -
  let ?ph = "\<lparr>cfg = server_cfg s, url_Parse = server_url_Parse s\<rparr>"
  have H: "stages_from 2 (Handle ?ph name)" for name by (rule stages_from_Handle)
  have H1: "stages_from 1 (Handle ?ph name)" for name by (rule stages_from_mono [OF H]) simp
  have H0: "stages_from 0 (Handle ?ph name)" for name by (rule stages_from_mono [OF H]) simp
  have L: "stages_from 1 (AuthRateLimiter NewRateLimiter (Handle ?ph name))"
    "stages_from 1 (TransferRateLimiter NewRateLimiter (Handle ?ph name))"
    "stages_from 1 (DefaultRateLimiter NewRateLimiter (Handle ?ph name))" for name
    unfolding AuthRateLimiter_def TransferRateLimiter_def DefaultRateLimiter_def
    by (rule stages_from_RateLimit [OF H])+
  have L0: "stages_from 0 (AuthRateLimiter NewRateLimiter (Handle ?ph name))" for name
    by (rule stages_from_mono [OF L(1)]) simp
  note V = stages_from_ValidateToken
  show ?thesis
  proof (cases "redisClient s")
    case None
    then show ?thesis using assms unfolding setupRoutes_handlers
      by (auto intro: stages_from_health H0 V H1)
  next
    case (Some rc)
    then show ?thesis using assms unfolding setupRoutes_handlers
      by (auto intro: stages_from_health L0 V L)
  qed
qed


lemma doProxy_header:
  "k \<noteq> ''Content-Type'' \<Longrightarrow> Header (Response (snd (doProxy u name c))) k = Header (Response c) k"
  by (simp add: doProxy_def Let_def ErrorHandler_def split: backend_outcome.splits)

lemma Handle_frame:
  "store (snd (Handle h name c)) = store c \<and>
   (\<forall>k. k \<noteq> ''Content-Type'' \<longrightarrow> Header (Response (snd (Handle h name c))) k = Header (Response c) k)"
proof (cases "Services (cfg h) name")
  case None
  then show ?thesis by (simp add: Handle_def JSON_header)
next
  case (Some svc)
  show ?thesis
  proof (cases "url_Parse h (ServiceURL svc)")
    case None
    then show ?thesis using Some by (simp add: Handle_def JSON_header)
  next
    case u: (Some u)
    show ?thesis
    proof (cases "breakers c name")
      case None
      then show ?thesis using Handle_direct [OF Some u None] by (simp add: doProxy_header)
    next
      case cb: (Some cb)
      obtain r cb1 where b: "beforeRequest createCircuitBreaker (t_before (Env c)) cb = (r, cb1)"
        by (cases "beforeRequest createCircuitBreaker (t_before (Env c)) cb")
      show ?thesis
      proof (cases r)
        case (Inl err)
        then show ?thesis using Handle_rejected [OF Some u cb] b by (simp add: JSON_header)
      next
        case (Inr gen)
        then show ?thesis using Handle_admitted [OF Some u cb] b by (simp add: Let_def doProxy_header)
      qed
    qed
  qed
qed

lemma quota_free_Handle: "quota_free (Handle h name)"
  unfolding quota_free_def
proof
  fix c
  obtain evs where e: "trace (snd (Handle h name c)) = trace c @ evs" "\<forall>e \<in> set evs. 2 \<le> stage e"
    using stages_from_Handle [of h name] unfolding stages_from_def by blast
  have "\<forall>e \<in> set evs. stage e \<noteq> 1 \<and> (\<forall>tok. e \<noteq> BlacklistLookup tok)"
    using e(2) by fastforce
  then have "\<exists>evs. trace (snd (Handle h name c)) = trace c @ evs \<and>
      (\<forall>e \<in> set evs. stage e \<noteq> 1 \<and> (\<forall>tok. e \<noteq> BlacklistLookup tok))"
    using e(1) by blast
  then show "store (snd (Handle h name c)) = store c \<and>
          (\<forall>k. k \<noteq> ''Content-Type'' \<longrightarrow> Header (Response (snd (Handle h name c))) k = Header (Response c) k) \<and>
          (\<exists>evs. trace (snd (Handle h name c)) = trace c @ evs \<and>
             (\<forall>e \<in> set evs. stage e \<noteq> 1 \<and> (\<forall>tok. e \<noteq> BlacklistLookup tok)))"
    using Handle_frame [of h name c] by simp
qed

lemma quota_free_health: "quota_free health"
  unfolding quota_free_def health_def by (simp add: JSON_header)

lemma quota_free_ValidateToken:
  assumes "quota_free next" "auth_redisClient m = None"
  shows "quota_free (ValidateToken m next)"
  unfolding quota_free_def
proof
  fix c
  let ?goal = "store (snd (ValidateToken m next c)) = store c \<and>
          (\<forall>k. k \<noteq> ''Content-Type'' \<longrightarrow> Header (Response (snd (ValidateToken m next c))) k = Header (Response c) k) \<and>
          (\<exists>evs. trace (snd (ValidateToken m next c)) = trace c @ evs \<and>
             (\<forall>e \<in> set evs. stage e \<noteq> 1 \<and> (\<forall>tok. e \<noteq> BlacklistLookup tok)))"
  from ValidateToken_cases [of m c]
  show ?goal
  proof (elim disjE exE conjE)
    fix c1 evs
    assume a: "\<forall>next. ValidateToken m next c = next c1" "Response c1 = Response c" "store c1 = store c"
      "trace c1 = trace c @ evs" "\<forall>e \<in> set evs. stage e = 0"
      "auth_redisClient m = None \<longrightarrow> (\<forall>tok. BlacklistLookup tok \<notin> set evs)"
    obtain evs' where n: "store (snd (next c1)) = store c1"
      "\<forall>k. k \<noteq> ''Content-Type'' \<longrightarrow> Header (Response (snd (next c1))) k = Header (Response c1) k"
      "trace (snd (next c1)) = trace c1 @ evs'"
      "\<forall>e \<in> set evs'. stage e \<noteq> 1 \<and> (\<forall>tok. e \<noteq> BlacklistLookup tok)"
      using assms(1) unfolding quota_free_def by blast
    have t: "trace (snd (ValidateToken m next c)) = trace c @ (evs @ evs')" using a n by simp
    have "\<forall>e \<in> set (evs @ evs'). stage e \<noteq> 1 \<and> (\<forall>tok. e \<noteq> BlacklistLookup tok)"
      using a(5) a(6) assms(2) n(4) by auto
    then have "\<exists>evs. trace (snd (ValidateToken m next c)) = trace c @ evs \<and>
             (\<forall>e \<in> set evs. stage e \<noteq> 1 \<and> (\<forall>tok. e \<noteq> BlacklistLookup tok))"
      using t by blast
    then show ?goal using a n by simp
  next
    fix obj c1 evs
    assume a: "\<forall>next. ValidateToken m next c = JSON 401 obj c1" "Response c1 = Response c" "store c1 = store c"
      "trace c1 = trace c @ evs" "\<forall>e \<in> set evs. stage e = 0"
      "auth_redisClient m = None \<longrightarrow> (\<forall>tok. BlacklistLookup tok \<notin> set evs)"
    have "\<forall>e \<in> set evs. stage e \<noteq> 1 \<and> (\<forall>tok. e \<noteq> BlacklistLookup tok)"
      using a(5) a(6) assms(2) by auto
    then have "\<exists>evs. trace (snd (ValidateToken m next c)) = trace c @ evs \<and>
             (\<forall>e \<in> set evs. stage e \<noteq> 1 \<and> (\<forall>tok. e \<noteq> BlacklistLookup tok))"
      using a by auto
    then show ?goal using a by (simp add: JSON_header)
  qed
qed

lemma main_no_client: "redisClient (main cf parse False) = None"
  "server_cfg (main cf parse False) = cf" "server_url_Parse (main cf parse False) = parse"
  by (simp_all add: main_def NewRedisClient_def New_def)

lemma routes_quota_free:
  assumes "h \<in> set (map handler (setupRoutes (main cf parse False)))"
  shows "quota_free h"
proof -
  have V: "quota_free (ValidateToken (NewAuthMiddleware None) (Handle \<lparr>cfg = cf, url_Parse = parse\<rparr> name))" for name
    by (rule quota_free_ValidateToken [OF quota_free_Handle]) (simp add: NewAuthMiddleware_def)
  show ?thesis using assms unfolding setupRoutes_handlers main_no_client
    by (auto intro: quota_free_health quota_free_Handle V)
qed

text \<open>
  C7. The routes are registered with their handlers wrapped in authentication first (on
  the protected routes), then the rate limiter (when there is a store), then
  \<^verbatim>\<open>Handle\<close>, which consults the breaker and forwards. On every route, the calls a
  request makes to the collaborators are in the order of the stages. Each stage either
  passes the request on to whatever handler it wraps, or answers by itself (401 for
  authentication, 429 for the limiter, 503 or 500 for \<^verbatim>\<open>Handle\<close>) with a result that
  does not depend on the wrapped handler and a trace that ends in its own stage. The
  limiter passes a request on only when the store failed or the count is within the
  quota, and \<^verbatim>\<open>Handle\<close> calls the backend only when the service has no breaker or
  its breaker admitted the attempt.
\<close>

theorem C7_stage_order:
  "(\<forall>r \<in> set (setupRoutes s). \<forall>c. \<exists>evs.
      trace (snd (handler r c)) = trace c @ evs \<and> sorted (map stage evs)) \<and>
   map pattern (setupRoutes s) =
     [''/health'', ''/api/auth/*'', ''/api/transfers/*'', ''/api/users/*'', ''/api/reporting/*'', ''/api/aml/*''] \<and>
   map handler (setupRoutes s) =
     (case redisClient s of
        Some rc \<Rightarrow>
          [health,
           AuthRateLimiter NewRateLimiter (Handle \<lparr>cfg = server_cfg s, url_Parse = server_url_Parse s\<rparr> ''auth-service''),
           ValidateToken (NewAuthMiddleware (redisClient s))
             (TransferRateLimiter NewRateLimiter (Handle \<lparr>cfg = server_cfg s, url_Parse = server_url_Parse s\<rparr> ''transaction-service'')),
           ValidateToken (NewAuthMiddleware (redisClient s))
             (DefaultRateLimiter NewRateLimiter (Handle \<lparr>cfg = server_cfg s, url_Parse = server_url_Parse s\<rparr> ''user-service'')),
           ValidateToken (NewAuthMiddleware (redisClient s))
             (DefaultRateLimiter NewRateLimiter (Handle \<lparr>cfg = server_cfg s, url_Parse = server_url_Parse s\<rparr> ''reporting-service'')),
           ValidateToken (NewAuthMiddleware (redisClient s))
             (DefaultRateLimiter NewRateLimiter (Handle \<lparr>cfg = server_cfg s, url_Parse = server_url_Parse s\<rparr> ''aml-service''))]
      | None \<Rightarrow>
          [health,
           Handle \<lparr>cfg = server_cfg s, url_Parse = server_url_Parse s\<rparr> ''auth-service'',
           ValidateToken (NewAuthMiddleware (redisClient s))
             (Handle \<lparr>cfg = server_cfg s, url_Parse = server_url_Parse s\<rparr> ''transaction-service''),
           ValidateToken (NewAuthMiddleware (redisClient s))
             (Handle \<lparr>cfg = server_cfg s, url_Parse = server_url_Parse s\<rparr> ''user-service''),
           ValidateToken (NewAuthMiddleware (redisClient s))
             (Handle \<lparr>cfg = server_cfg s, url_Parse = server_url_Parse s\<rparr> ''reporting-service''),
           ValidateToken (NewAuthMiddleware (redisClient s))
             (Handle \<lparr>cfg = server_cfg s, url_Parse = server_url_Parse s\<rparr> ''aml-service'')]) \<and>
   ((\<exists>c1. (\<forall>next. ValidateToken m next c = next c1) \<and>
          Response c1 = Response c \<and> store c1 = store c \<and> breakers c1 = breakers c \<and>
          (\<exists>evs. trace c1 = trace c @ evs \<and> (\<forall>e \<in> set evs. stage e = 0))) \<or>
    (\<exists>obj c1. (\<forall>next. ValidateToken m next c = JSON 401 obj c1) \<and>
          Response c1 = Response c \<and> store c1 = store c \<and> breakers c1 = breakers c \<and>
          (\<exists>evs. trace c1 = trace c @ evs \<and> (\<forall>e \<in> set evs. stage e = 0)))) \<and>
   ((\<exists>c1. (\<forall>next. checkLimit c next key pol = next c1) \<and>
          trace c1 = trace c @ [StoreIncr key] \<and> breakers c1 = breakers c \<and>
          Committed (Response c1) = Committed (Response c) \<and>
          Status (Response c1) = Status (Response c) \<and> Body (Response c1) = Body (Response c) \<and>
          (case fst (IncrementWithExpiry (incr_ok (Env c)) (t_incr (Env c)) (store c) key (Window pol)) of
             Inl err \<Rightarrow> True | Inr n \<Rightarrow> n \<le> Limit pol)) \<or>
    (\<exists>obj c1. (\<forall>next. checkLimit c next key pol = JSON 429 obj c1) \<and>
          trace c1 = trace c @ [StoreIncr key, StoreTTL key] \<and> breakers c1 = breakers c \<and>
          Committed (Response c1) = Committed (Response c) \<and>
          Status (Response c1) = Status (Response c) \<and> Body (Response c1) = Body (Response c) \<and>
          (\<exists>n. fst (IncrementWithExpiry (incr_ok (Env c)) (t_incr (Env c)) (store c) key (Window pol)) = Inr n \<and>
               Limit pol < n))) \<and>
   ((\<exists>code obj c1. Handle h name c = JSON code obj c1 \<and> (code = 503 \<or> code = 500) \<and>
        store c1 = store c \<and> Response c1 = Response c \<and>
        (trace c1 = trace c \<or> trace c1 = trace c @ [BreakerAttempt name])) \<or>
    (\<exists>u cb gen cb1. breakers c name = Some cb \<and>
        beforeRequest createCircuitBreaker (t_before (Env c)) cb = (Inr gen, cb1) \<and>
        trace (snd (Handle h name c)) =
          trace c @ [BreakerAttempt name, BackendCall name (Director u c),
                     BreakerReport name (responded (backend_reply (Env c)))]) \<or>
    (\<exists>u. breakers c name = None \<and>
        trace (snd (Handle h name c)) = trace c @ [BackendCall name (Director u c)]))"
proof -
  have order: "\<forall>r \<in> set (setupRoutes s). \<forall>c. \<exists>evs.
      trace (snd (handler r c)) = trace c @ evs \<and> sorted (map stage evs)"
  proof (intro ballI allI)
    fix r c
    assume "r \<in> set (setupRoutes s)"
    then have "handler r \<in> set (map handler (setupRoutes s))" by simp
    then have "stages_from 0 (handler r)" by (rule routes_ordered)
    then show "\<exists>evs. trace (snd (handler r c)) = trace c @ evs \<and> sorted (map stage evs)"
      unfolding stages_from_def by blast
  qed
  have auth: "(\<exists>c1. (\<forall>next. ValidateToken m next c = next c1) \<and>
          Response c1 = Response c \<and> store c1 = store c \<and> breakers c1 = breakers c \<and>
          (\<exists>evs. trace c1 = trace c @ evs \<and> (\<forall>e \<in> set evs. stage e = 0))) \<or>
    (\<exists>obj c1. (\<forall>next. ValidateToken m next c = JSON 401 obj c1) \<and>
          Response c1 = Response c \<and> store c1 = store c \<and> breakers c1 = breakers c \<and>
          (\<exists>evs. trace c1 = trace c @ evs \<and> (\<forall>e \<in> set evs. stage e = 0)))"
    using ValidateToken_cases [of m c]
  proof (elim disjE exE conjE)
    fix c1 evs
    assume "\<forall>next. ValidateToken m next c = next c1" "Response c1 = Response c" "store c1 = store c"
      "breakers c1 = breakers c" "trace c1 = trace c @ evs" "\<forall>e \<in> set evs. stage e = 0"
    then show ?thesis by (intro disjI1 exI [of _ c1] conjI exI [of _ evs])
  next
    fix obj c1 evs
    assume "\<forall>next. ValidateToken m next c = JSON 401 obj c1" "Response c1 = Response c" "store c1 = store c"
      "breakers c1 = breakers c" "trace c1 = trace c @ evs" "\<forall>e \<in> set evs. stage e = 0"
    then show ?thesis by (intro disjI2 exI [of _ obj] exI [of _ c1] conjI exI [of _ evs])
  qed
  show ?thesis
    by (intro conjI order setupRoutes_patterns setupRoutes_handlers auth checkLimit_cases Handle_cases)
qed

lemma sample_trace:
  "trace (snd (handler (setupRoutes (main sample_cfg sample_parse True) ! 3) sample_served)) =
     [BlacklistLookup ''t0'', TokenParse ''t0'', StoreIncr ''ratelimit:user:alice:/api/users/*'',
      BreakerAttempt ''user-service'', BackendCall ''user-service''
        \<lparr>out_Host = ''users:8080'', out_Path = ''/users/42'', out_RequestID = ''r1'', out_UserID = Some ''alice''\<rparr>,
      BreakerReport ''user-service'' True]"
  by code_simp

lemma sample_trace_denied:
  "trace (snd (handler (setupRoutes (main sample_cfg sample_parse True) ! 3)
     (sample_served\<lparr>store := [''ratelimit:user:alice:/api/users/*'' \<mapsto> (1000, Some (30 * Second))]\<rparr>))) =
     [BlacklistLookup ''t0'', TokenParse ''t0'', StoreIncr ''ratelimit:user:alice:/api/users/*'',
      StoreTTL ''ratelimit:user:alice:/api/users/*'']"
  by code_simp

lemma sample_trace_degraded:
  "trace (snd (handler (setupRoutes (main sample_cfg sample_parse False) ! 3) sample_served)) =
     [TokenParse ''t0'', BreakerAttempt ''user-service'', BackendCall ''user-service''
        \<lparr>out_Host = ''users:8080'', out_Path = ''/users/42'', out_RequestID = ''r1'', out_UserID = Some ''alice''\<rparr>,
      BreakerReport ''user-service'' True]"
  by code_simp

lemma sample_served_fields [simp]:
  "trace sample_served = []" "store sample_served = Map.empty" "Response sample_served = new_response"
  by (simp_all add: sample_served_def)

text \<open>
  A request with a valid token on the users route goes through all four stages; with
  the quota used up it stops at the limiter.
\<close>

theorem C7_stage_order_witness:
  "sorted (map stage (trace (snd (handler (setupRoutes (main sample_cfg sample_parse True) ! 3) sample_served)))) \<and>
   trace (snd (handler (setupRoutes (main sample_cfg sample_parse True) ! 3) sample_served)) =
     [BlacklistLookup ''t0'', TokenParse ''t0'', StoreIncr ''ratelimit:user:alice:/api/users/*'',
      BreakerAttempt ''user-service'', BackendCall ''user-service''
        \<lparr>out_Host = ''users:8080'', out_Path = ''/users/42'', out_RequestID = ''r1'', out_UserID = Some ''alice''\<rparr>,
      BreakerReport ''user-service'' True] \<and>
   trace (snd (handler (setupRoutes (main sample_cfg sample_parse True) ! 3)
     (sample_served\<lparr>store := [''ratelimit:user:alice:/api/users/*'' \<mapsto> (1000, Some (30 * Second))]\<rparr>))) =
     [BlacklistLookup ''t0'', TokenParse ''t0'', StoreIncr ''ratelimit:user:alice:/api/users/*'',
      StoreTTL ''ratelimit:user:alice:/api/users/*'']"
proof -
  let ?s = "main sample_cfg sample_parse True"
  note inst = C7_stage_order [of ?s]
  have len: "length (setupRoutes ?s) = 6"
    using arg_cong [OF conjunct1 [OF conjunct2 [OF inst]], of length] by simp
  then have mem: "setupRoutes ?s ! 3 \<in> set (setupRoutes ?s)" by simp
  obtain evs where "trace (snd (handler (setupRoutes ?s ! 3) sample_served)) = trace sample_served @ evs"
    "sorted (map stage evs)"
    using conjunct1 [OF inst] mem by blast
  then have "sorted (map stage (trace (snd (handler (setupRoutes ?s ! 3) sample_served))))" by simp
  then show ?thesis using sample_trace sample_trace_denied by simp
qed

text \<open>
  C10. When the ping of the store fails at startup, the server holds no client of the
  store: the routes are registered without any rate limiter, and on every route and for
  every request the store is left as it is, no header but the content type is set (so
  no X-RateLimit header), and neither the counting store nor the blacklist is called.
  The routes are set up once, so this holds for every request the process serves.
\<close>

theorem C10_no_store_no_limiter:
  "redisClient (main cf parse False) = None \<and>
   map handler (setupRoutes (main cf parse False)) =
     [health,
      Handle \<lparr>cfg = cf, url_Parse = parse\<rparr> ''auth-service'',
      ValidateToken (NewAuthMiddleware None) (Handle \<lparr>cfg = cf, url_Parse = parse\<rparr> ''transaction-service''),
      ValidateToken (NewAuthMiddleware None) (Handle \<lparr>cfg = cf, url_Parse = parse\<rparr> ''user-service''),
      ValidateToken (NewAuthMiddleware None) (Handle \<lparr>cfg = cf, url_Parse = parse\<rparr> ''reporting-service''),
      ValidateToken (NewAuthMiddleware None) (Handle \<lparr>cfg = cf, url_Parse = parse\<rparr> ''aml-service'')] \<and>
   (\<forall>r \<in> set (setupRoutes (main cf parse False)). \<forall>c.
      store (snd (handler r c)) = store c \<and>
      (\<forall>k. k \<noteq> ''Content-Type'' \<longrightarrow> Header (Response (snd (handler r c))) k = Header (Response c) k) \<and>
      (\<exists>evs. trace (snd (handler r c)) = trace c @ evs \<and>
         (\<forall>e \<in> set evs. stage e \<noteq> 1 \<and> (\<forall>tok. e \<noteq> BlacklistLookup tok))))"
proof -
  have free: "\<forall>r \<in> set (setupRoutes (main cf parse False)). \<forall>c.
      store (snd (handler r c)) = store c \<and>
      (\<forall>k. k \<noteq> ''Content-Type'' \<longrightarrow> Header (Response (snd (handler r c))) k = Header (Response c) k) \<and>
      (\<exists>evs. trace (snd (handler r c)) = trace c @ evs \<and>
         (\<forall>e \<in> set evs. stage e \<noteq> 1 \<and> (\<forall>tok. e \<noteq> BlacklistLookup tok)))"
  proof (intro ballI)
    fix r
    assume "r \<in> set (setupRoutes (main cf parse False))"
    then have "handler r \<in> set (map handler (setupRoutes (main cf parse False)))" by simp
    then have "quota_free (handler r)" by (rule routes_quota_free)
    then show "\<forall>c. store (snd (handler r c)) = store c \<and>
      (\<forall>k. k \<noteq> ''Content-Type'' \<longrightarrow> Header (Response (snd (handler r c))) k = Header (Response c) k) \<and>
      (\<exists>evs. trace (snd (handler r c)) = trace c @ evs \<and>
         (\<forall>e \<in> set evs. stage e \<noteq> 1 \<and> (\<forall>tok. e \<noteq> BlacklistLookup tok)))"
      unfolding quota_free_def .
  qed
  have table: "map handler (setupRoutes (main cf parse False)) =
     [health,
      Handle \<lparr>cfg = cf, url_Parse = parse\<rparr> ''auth-service'',
      ValidateToken (NewAuthMiddleware None) (Handle \<lparr>cfg = cf, url_Parse = parse\<rparr> ''transaction-service''),
      ValidateToken (NewAuthMiddleware None) (Handle \<lparr>cfg = cf, url_Parse = parse\<rparr> ''user-service''),
      ValidateToken (NewAuthMiddleware None) (Handle \<lparr>cfg = cf, url_Parse = parse\<rparr> ''reporting-service''),
      ValidateToken (NewAuthMiddleware None) (Handle \<lparr>cfg = cf, url_Parse = parse\<rparr> ''aml-service'')]"
    unfolding setupRoutes_handlers main_no_client by simp
  show ?thesis using main_no_client(1) [of cf parse] table free by (intro conjI)
qed

text \<open>A request with a valid token on the users route of such a server.\<close>

theorem C10_no_store_no_limiter_witness:
  "trace (snd (handler (setupRoutes (main sample_cfg sample_parse False) ! 3) sample_served)) =
     [TokenParse ''t0'', BreakerAttempt ''user-service'', BackendCall ''user-service''
        \<lparr>out_Host = ''users:8080'', out_Path = ''/users/42'', out_RequestID = ''r1'', out_UserID = Some ''alice''\<rparr>,
      BreakerReport ''user-service'' True] \<and>
   store (snd (handler (setupRoutes (main sample_cfg sample_parse False) ! 3) sample_served)) = Map.empty \<and>
   Header (Response (snd (handler (setupRoutes (main sample_cfg sample_parse False) ! 3) sample_served)))
     ''X-RateLimit-Limit'' = None \<and>
   Header (Response (snd (handler (setupRoutes (main sample_cfg sample_parse False) ! 3) sample_served)))
     ''X-RateLimit-Remaining'' = None"
proof -
  let ?s = "main sample_cfg sample_parse False"
  note inst = C10_no_store_no_limiter [of sample_cfg sample_parse]
  have "length (map handler (setupRoutes ?s)) = 6"
    using arg_cong [OF conjunct1 [OF conjunct2 [OF inst]], of length] by simp
  then have mem: "setupRoutes ?s ! 3 \<in> set (setupRoutes ?s)" by simp
  have "store (snd (handler (setupRoutes ?s ! 3) sample_served)) = store sample_served \<and>
      (\<forall>k. k \<noteq> ''Content-Type'' \<longrightarrow>
         Header (Response (snd (handler (setupRoutes ?s ! 3) sample_served))) k = Header (Response sample_served) k)"
    using conjunct2 [OF conjunct2 [OF inst]] mem by blast
  then show ?thesis using sample_trace_degraded by simp
qed

end
